theory Spec2Isabelle
  imports Main "HOL-Library.Word"
begin

section \<open>The scanner variants\<close>

text \<open>
  The repository holds several rewrites of one screen (\<open>App\<close>), each a complete
  component.  The ones modelled here:
  \<^item> the \<^emph>\<open>two-zone scanner\<close> (\<open>unnamed/part_000\<close>): name zone and collector-info zone,
    \<open>searchByInfo\<close>, \<open>searchByName\<close>, \<open>fetchPTVersion\<close>, \<open>translateText\<close>,
    \<open>preprocessImage\<close> with cutoff 130;
  \<^item> the \<^emph>\<open>full-frame scanner\<close> (\<open>unnamed/part_002\<close>): \<open>searchMultipleFuzzy\<close> over the
    recognized lines, \<open>preprocessImage\<close> with cutoff 140, \<open>translateText\<close>;
  \<^item> the \<^emph>\<open>first scanner\<close> (\<open>unnamed/part_003\<close>): the threshold loop inside
    \<open>captureAndScan\<close>, cutoff 128 on the mean of the channels;
  \<^item> the \<^emph>\<open>single-zone scanner\<close> (\<open>unnamed/part_004\<close>, first component): the name
    cleaning with collapsed white space;
  \<^item> the \<^emph>\<open>photo scanner\<close> (\<open>unnamed/part_001\<close>, first component) and the two
    \<^emph>\<open>dual-pass scanners\<close> (\<open>unnamed/part_004\<close>, second component, and
    \<open>unnamed/part_006\<close>): the collector-info pattern with three or more letters or
    digits, and what the scan does with and without a match; \<open>fetchPTVersion\<close> of
    these scanners is that of the two-zone scanner.
\<close>

section \<open>Strings\<close>

text \<open>
  The application is TypeScript: a string is a sequence of 16-bit code units.  String
  literals of the source are written with \<open>js\<close>.
\<close>

type_synonym code_unit = "16 word"
type_synonym jsstring = "code_unit list"

definition js :: "string \<Rightarrow> jsstring" where
  "js = map of_char"

text \<open>
  An optional string field used as a condition (\<open>!result.oracle_text\<close>,
  \<open>a || b\<close>): \<open>undefined\<close> and the empty string are falsy.
\<close>

definition truthy :: "jsstring option \<Rightarrow> bool" where
  "truthy x = (case x of None \<Rightarrow> False | Some t \<Rightarrow> t \<noteq> [])"

text \<open>
  \<open>encodeURIComponent\<close> throws \<open>URIError\<close> on a string with an unpaired surrogate: a
  code unit in \<open>DC00..DFFF\<close> that does not follow one in \<open>D800..DBFF\<close>, or one in
  \<open>D800..DBFF\<close> that is not followed by one in \<open>DC00..DFFF\<close>.  On every other string
  it returns, and it is injective.  \<open>encodable\<close> says that it returns.
\<close>

definition high_surrogate :: "code_unit \<Rightarrow> bool" where
  "high_surrogate c \<longleftrightarrow> 0xD800 \<le> c \<and> c \<le> 0xDBFF"

definition low_surrogate :: "code_unit \<Rightarrow> bool" where
  "low_surrogate c \<longleftrightarrow> 0xDC00 \<le> c \<and> c \<le> 0xDFFF"

fun encodable :: "jsstring \<Rightarrow> bool" where
  "encodable [] \<longleftrightarrow> True"
| "encodable [c] \<longleftrightarrow> \<not> high_surrogate c \<and> \<not> low_surrogate c"
| "encodable (c # d # ds) \<longleftrightarrow>
     (if high_surrogate c then low_surrogate d \<and> encodable ds
      else \<not> low_surrogate c \<and> encodable (d # ds))"

section \<open>Character classes and name cleaning\<close>

text \<open>
  The classes the regular expressions of the source use.  \<open>[a-zA-Z]\<close> and, under the
  flag \<open>i\<close> without the flag \<open>u\<close>, \<open>[A-Z]\<close> are the 52 Latin letters; \<open>\d\<close> is
  the ten ASCII digits; \<open>\s\<close> is the white space and line terminators of the language,
  which is also what \<open>trim\<close> strips.
\<close>

definition is_alpha :: "code_unit \<Rightarrow> bool" where
  "is_alpha c \<longleftrightarrow> (0x41 \<le> c \<and> c \<le> 0x5A) \<or> (0x61 \<le> c \<and> c \<le> 0x7A)"

definition is_digit :: "code_unit \<Rightarrow> bool" where
  "is_digit c \<longleftrightarrow> 0x30 \<le> c \<and> c \<le> 0x39"

definition is_alnum :: "code_unit \<Rightarrow> bool" where
  "is_alnum c \<longleftrightarrow> is_alpha c \<or> is_digit c"

definition is_space :: "code_unit \<Rightarrow> bool" where
  "is_space c \<longleftrightarrow>
     (0x09 \<le> c \<and> c \<le> 0x0D) \<or> c = 0x20 \<or> c = 0xA0 \<or> c = 0x1680
     \<or> (0x2000 \<le> c \<and> c \<le> 0x200A) \<or> c = 0x2028 \<or> c = 0x2029 \<or> c = 0x202F
     \<or> c = 0x205F \<or> c = 0x3000 \<or> c = 0xFEFF"

text \<open>\<open>String.prototype.trim\<close>.\<close>

definition trim :: "jsstring \<Rightarrow> jsstring" where
  "trim t = rev (dropWhile is_space (rev (dropWhile is_space t)))"

text \<open>\<open>.replace(/[^a-zA-Z\s]/g, ' ')\<close>: every code unit outside the class becomes a space.\<close>

definition blank_non_letters :: "jsstring \<Rightarrow> jsstring" where
  "blank_non_letters t = map (\<lambda>c. if is_alpha c \<or> is_space c then c else 0x20) t"

text \<open>\<open>.replace(/[^a-zA-Z\s]/g, '')\<close>: every code unit outside the class is dropped.\<close>

definition drop_non_letters :: "jsstring \<Rightarrow> jsstring" where
  "drop_non_letters t = filter (\<lambda>c. is_alpha c \<or> is_space c) t"

text \<open>\<open>.replace(/\s+/g, ' ')\<close>: every maximal run of white space becomes one space.\<close>

function collapse_spaces :: "jsstring \<Rightarrow> jsstring" where
  "collapse_spaces [] = []"
| "collapse_spaces (c # cs) =
     (if is_space c then 0x20 # collapse_spaces (dropWhile is_space cs)
      else c # collapse_spaces cs)"
  by pat_completeness auto
termination
  by (relation "measure length") (auto simp: le_imp_less_Suc length_dropWhile_le)

text \<open>
  \<open>cleanName\<close> in \<open>captureAndScan\<close> of the two-zone scanner:
  \<open>nameText.trim().replace(/[^a-zA-Z\s]/g, ' ')\<close>.
\<close>

definition cleanName :: "jsstring \<Rightarrow> jsstring" where
  "cleanName nameText = blank_non_letters (trim nameText)"

text \<open>
  \<open>cleanedText\<close> in \<open>captureAndScan\<close> of the single-zone scanner:
  \<open>text.trim().replace(/[^a-zA-Z\s]/g, ' ').replace(/\s+/g, ' ')\<close>.
\<close>

definition cleanedText :: "jsstring \<Rightarrow> jsstring" where
  "cleanedText text = collapse_spaces (blank_non_letters (trim text))"

text \<open>
  \<open>cleanTitle\<close> in the photo scanner and in the dual-pass scanners:
  \<open>titleText.trim().replace(/[^a-zA-Z\s]/g, '')\<close>.
\<close>

definition cleanTitle :: "jsstring \<Rightarrow> jsstring" where
  "cleanTitle titleText = drop_non_letters (trim titleText)"

text \<open>
  "Every maximal run of white space becomes one space, everything else stays", in words
  rather than as a program, for comparison with \<open>collapse_spaces\<close>: the second string is
  the first one collapsed.
\<close>

inductive collapsed :: "jsstring \<Rightarrow> jsstring \<Rightarrow> bool" where
  collapsed_Nil: "collapsed [] []"
| collapsed_keep: "\<not> is_space c \<Longrightarrow> collapsed cs r \<Longrightarrow> collapsed (c # cs) (c # r)"
| collapsed_run: "ws \<noteq> [] \<Longrightarrow> list_all is_space ws \<Longrightarrow> rest = [] \<or> \<not> is_space (hd rest) \<Longrightarrow>
     collapsed rest r \<Longrightarrow> collapsed (ws @ rest) (0x20 # r)"

section \<open>Collector-info extraction\<close>

text \<open>
  \<open>toUpperCase\<close> and \<open>toLowerCase\<close>, on the strings the scanners apply them to: a
  group matched by \<open>[A-Z]{3}\<close> or \<open>[A-Z0-9]{3,}\<close> (flag \<open>i\<close>) holds ASCII letters and
  digits only, and there the two functions change the case of the letters.
\<close>

definition toUpperCase :: "jsstring \<Rightarrow> jsstring" where
  "toUpperCase t = map (\<lambda>c. if 0x61 \<le> c \<and> c \<le> 0x7A then c - 0x20 else c) t"

definition toLowerCase :: "jsstring \<Rightarrow> jsstring" where
  "toLowerCase t = map (\<lambda>c. if 0x41 \<le> c \<and> c \<le> 0x5A then c + 0x20 else c) t"

text \<open>
  \<open>String.prototype.match\<close> with a pattern without the flag \<open>g\<close>: the pattern is tried
  at the start positions 0, 1, ... up to the length of the text, and the first position
  where it matches decides.  \<open>m\<close> is the pattern tried at the start of a text.
\<close>

fun first_match :: "(jsstring \<Rightarrow> 'a option) \<Rightarrow> jsstring \<Rightarrow> 'a option" where
  "first_match m [] = m []"
| "first_match m (c # cs) =
     (case m (c # cs) of Some r \<Rightarrow> Some r | None \<Rightarrow> first_match m cs)"

text \<open>
  What is left for \<open>\s*(\d+)\<close> once the first group has ended: the white space is
  skipped and the longest run of digits is the second group; the match fails when that
  run is empty.  (Both quantifiers are greedy, and giving back white space or digits
  can not turn a failure into a match.)
\<close>

definition digits_after :: "jsstring \<Rightarrow> jsstring" where
  "digits_after rest = takeWhile is_digit (dropWhile is_space rest)"

text \<open>
  \<open>/([A-Z]{3})\s*(\d+)/i\<close> tried at the start of a text; the result is the pair of the
  two groups.
\<close>

definition info_at :: "jsstring \<Rightarrow> (jsstring \<times> jsstring) option" where
  "info_at t =
     (if length (take 3 t) = 3 \<and> list_all is_alpha (take 3 t) \<and> digits_after (drop 3 t) \<noteq> []
      then Some (take 3 t, digits_after (drop 3 t)) else None)"

text \<open>\<open>infoText.match(/([A-Z]{3})\s*(\d+)/i)\<close> of the two-zone scanner.\<close>

definition infoMatch :: "jsstring \<Rightarrow> (jsstring \<times> jsstring) option" where
  "infoMatch infoText = first_match info_at infoText"

text \<open>
  \<open>/([A-Z0-9]{3,})\s*(\d+)/i\<close> tried at the start of a text.  The first group is greedy:
  it first takes the whole run of letters and digits at the start, and gives back one
  code unit at a time, down to three, until the rest of the pattern matches.
  \<open>backtrack k t\<close> tries the group lengths \<open>k\<close>, \<open>k - 1\<close>, ..., 3.
\<close>

fun backtrack :: "nat \<Rightarrow> jsstring \<Rightarrow> (jsstring \<times> jsstring) option" where
  "backtrack 0 t = None"
| "backtrack (Suc k) t =
     (if Suc k < 3 then None
      else if digits_after (drop (Suc k) t) \<noteq> []
        then Some (take (Suc k) t, digits_after (drop (Suc k) t))
      else backtrack k t)"

definition codes_at :: "jsstring \<Rightarrow> (jsstring \<times> jsstring) option" where
  "codes_at t = backtrack (length (takeWhile is_alnum t)) t"

text \<open>
  \<open>infoText.match(/([A-Z0-9]{3,})\s*(\d+)/i)\<close> of the photo scanner and of the two
  dual-pass scanners.
\<close>

definition codes :: "jsstring \<Rightarrow> (jsstring \<times> jsstring) option" where
  "codes infoText = first_match codes_at infoText"

text \<open>
  The patterns in words, for comparison with the matchers above: the text is cut into
  what comes before the match, the first group \<open>g\<close>, white space \<open>w\<close>, the digits
  \<open>d\<close>, and what comes after.
\<close>

definition three_letters :: "jsstring \<Rightarrow> bool" where
  "three_letters g \<longleftrightarrow> length g = 3 \<and> list_all is_alpha g"

definition three_or_more_alnum :: "jsstring \<Rightarrow> bool" where
  "three_or_more_alnum g \<longleftrightarrow> 3 \<le> length g \<and> list_all is_alnum g"

definition occurrence ::
  "(jsstring \<Rightarrow> bool) \<Rightarrow> jsstring \<Rightarrow> jsstring \<Rightarrow> jsstring \<Rightarrow> jsstring \<Rightarrow> jsstring \<Rightarrow> jsstring \<Rightarrow> bool" where
  "occurrence first_group t pre g w d post \<longleftrightarrow>
     t = pre @ g @ w @ d @ post \<and> first_group g \<and> list_all is_space w
     \<and> d \<noteq> [] \<and> list_all is_digit d"

section \<open>Card records, session state and the remote services\<close>

text \<open>The interface \<open>CardData\<close>; \<open>image_uris\<close> holds its \<open>normal\<close> URI.\<close>

record card =
  name :: jsstring
  printed_name :: "jsstring option"
  type_line :: jsstring
  printed_type_line :: "jsstring option"
  oracle_text :: "jsstring option"
  printed_text :: "jsstring option"
  translated_text :: "jsstring option"
  image_uris :: "jsstring option"
  lang :: jsstring

text \<open>
  The messages handed to \<open>setError\<close> (the Portuguese text is given without accents):
  \<^item> \<open>Nao_identificada\<close>: "Nao consegui identificar a carta. Tente alinhar o rodape."
  \<^item> \<open>Colecao_nao_encontrada\<close>: "Informacao de colecao lida, mas nao encontrada.
    Refazendo por nome..."
  \<^item> \<open>Carta_nao_reconhecida\<close>: "Carta nao reconhecida."
  \<^item> \<open>Erro_na_traducao\<close>: "Erro na traducao."
  \<^item> \<open>Erro_ao_traduzir\<close>: "Erro ao traduzir."
  \<^item> \<open>Nao_li_o_nome\<close>: "Nao consegui ler o nome. Verifique se a foto esta bem
    iluminada e nitida."
  \<^item> \<open>Nao_encontrada_no_banco\<close>: "Carta nao encontrada no banco de dados."
  \<^item> \<open>Nao_li_a_carta\<close>: "Nao consegui ler a carta. Tente focar no titulo ou no
    rodape."
  \<^item> \<open>Rodape_nao_encontrado\<close>: "Info de rodape nao encontrada no banco. Tentando por
    nome..."
  \<^item> \<open>Carta_nao_identificada\<close>: "Carta nao identificada."
\<close>

datatype message =
    Nao_identificada
  | Colecao_nao_encontrada
  | Carta_nao_reconhecida
  | Erro_na_traducao
  | Erro_ao_traduzir
  | Nao_li_o_nome
  | Nao_encontrada_no_banco
  | Nao_li_a_carta
  | Rodape_nao_encontrado
  | Carta_nao_identificada

text \<open>
  The requests the handlers issue with \<open>fetch\<close>:
  \<^item> \<open>Card_by_set set num\<close>: \<open>api.scryfall.com/cards/{set}/{num}\<close>
  \<^item> \<open>Autocomplete q\<close>: \<open>api.scryfall.com/cards/autocomplete?q=\<close>
  \<^item> \<open>Named_fuzzy q\<close>: \<open>api.scryfall.com/cards/named?fuzzy=\<close>
  \<^item> \<open>Search_pt n\<close>: \<open>api.scryfall.com/cards/search?q=!"n"+lang:pt\<close>
  \<^item> \<open>Translate t\<close>: \<open>translate.googleapis.com/translate_a/single?...sl=en&tl=pt...&q=\<close>

  The query of the autocomplete, fuzzy and translation requests goes through
  \<open>encodeURIComponent\<close> while the address is built, inside the \<open>try\<close> of the handler: when
  the string is not \<open>encodable\<close> the handler's \<open>catch\<close> runs and no request is issued.
\<close>

datatype request =
    Card_by_set jsstring jsstring
  | Autocomplete jsstring
  | Named_fuzzy jsstring
  | Search_pt jsstring
  | Translate jsstring

text \<open>
  What a \<open>fetch\<close> gives back.  Where the handler tests \<open>response.ok\<close> before it reads
  the body: the call threw (network error, or a body that is not JSON), the status was
  not a success, or the parsed body.  Where the handler reads the body whatever the
  status: the call or the reading threw (network error, a body that is not JSON or that
  lacks the structure the handler reads), or the parsed body.  A card in a body has the
  fields of \<open>CardData\<close>.
\<close>

datatype 'a checked = Rejected | Status_error | Ok_json 'a

datatype 'a parsed = Threw | Json 'a

text \<open>
  The remote services, as functions of the query: the catalog's four endpoints and
  the translation endpoint.  A search or autocomplete body carries its \<open>data\<close> field
  (\<open>None\<close> when the field is missing); the translation body carries the first fields of
  the items of \<open>data[0]\<close>, and every fault in reading them is \<open>Threw\<close>.
\<close>

record services =
  card_by_set :: "jsstring \<Rightarrow> jsstring \<Rightarrow> card checked"
  autocomplete :: "jsstring \<Rightarrow> jsstring list option parsed"
  named_fuzzy :: "jsstring \<Rightarrow> card checked"
  search_pt :: "jsstring \<Rightarrow> card list option checked"
  translate_gtx :: "jsstring \<Rightarrow> jsstring list parsed"

text \<open>
  The component's state (\<open>useState\<close>): the displayed record, the busy flag, the
  last error and the debug line.  \<open>sent\<close> is not a field of the component: it records
  the requests issued so far, in order.
\<close>

record session =
  result :: "card option"
  loading :: bool
  error :: "message option"
  debugText :: jsstring
  sent :: "request list"

section \<open>Localization and translation\<close>

text \<open>
  \<open>fetchPTVersion\<close> of the two-zone scanner (the second dual-pass scanner has the
  same function): the \<open>catch\<close> and the fall-through after the \<open>if\<close>s both keep the
  record that came in.
\<close>

definition fetchPTVersion :: "services \<Rightarrow> card \<Rightarrow> session \<Rightarrow> session" where
  "fetchPTVersion sv cardData s =
     (if lang cardData = js ''pt'' then s\<lparr>result := Some cardData\<rparr>
      else
        let s1 = s\<lparr>sent := sent s @ [Search_pt (name cardData)]\<rparr> in
        (case search_pt sv (name cardData) of
           Ok_json ptData \<Rightarrow>
             (case ptData of
                Some (c # _) \<Rightarrow> s1\<lparr>result := Some c\<rparr>
              | _ \<Rightarrow> s1\<lparr>result := Some cardData\<rparr>)
         | Status_error \<Rightarrow> s1\<lparr>result := Some cardData\<rparr>
         | Rejected \<Rightarrow> s1\<lparr>result := Some cardData\<rparr>))"

text \<open>
  \<open>translateText\<close> of the two-zone scanner: nothing happens without a record that has
  rules text; otherwise the busy flag is raised, the text is encoded and sent, the
  segments are joined and attached, a fault (in the encoding, the call or the reading
  of the answer) sets the error, and the busy flag is lowered.
\<close>

definition translateText :: "services \<Rightarrow> session \<Rightarrow> session" where
  "translateText sv s =
     (case result s of
        None \<Rightarrow> s
      | Some r \<Rightarrow>
          (case oracle_text r of
             None \<Rightarrow> s
           | Some t \<Rightarrow>
               if t = [] then s
               else
                 let s0 = s\<lparr>loading := True\<rparr> in
                 if \<not> encodable t then s0\<lparr>error := Some Erro_na_traducao, loading := False\<rparr>
                 else
                   let s1 = s0\<lparr>sent := sent s0 @ [Translate t]\<rparr> in
                   (case translate_gtx sv t of
                      Json segs \<Rightarrow>
                        s1\<lparr>result := Some (r\<lparr>translated_text := Some (concat segs)\<rparr>),
                           loading := False\<rparr>
                    | Threw \<Rightarrow> s1\<lparr>error := Some Erro_na_traducao, loading := False\<rparr>)))"

text \<open>
  \<open>translateText\<close> of the full-frame scanner: the same handler with another message.
\<close>

definition translateText_full :: "services \<Rightarrow> session \<Rightarrow> session" where
  "translateText_full sv s =
     (case result s of
        None \<Rightarrow> s
      | Some r \<Rightarrow>
          (case oracle_text r of
             None \<Rightarrow> s
           | Some t \<Rightarrow>
               if t = [] then s
               else
                 let s0 = s\<lparr>loading := True\<rparr> in
                 if \<not> encodable t then s0\<lparr>error := Some Erro_ao_traduzir, loading := False\<rparr>
                 else
                   let s1 = s0\<lparr>sent := sent s0 @ [Translate t]\<rparr> in
                   (case translate_gtx sv t of
                      Json segs \<Rightarrow>
                        s1\<lparr>result := Some (r\<lparr>translated_text := Some (concat segs)\<rparr>),
                           loading := False\<rparr>
                    | Threw \<Rightarrow> s1\<lparr>error := Some Erro_ao_traduzir, loading := False\<rparr>)))"

section \<open>The disambiguation cascade\<close>

text \<open>\<open>a || b\<close> on an optional string: \<open>a\<close> when it is truthy, else \<open>b\<close>.\<close>

definition or_else :: "jsstring option \<Rightarrow> jsstring \<Rightarrow> jsstring" where
  "or_else a b = (case a of None \<Rightarrow> b | Some t \<Rightarrow> if t = [] then b else t)"

text \<open>
  \<open>searchByName\<close> of the two-zone scanner: every fault inside the \<open>try\<close> (the encoding
  of the query, the call, the reading of the answer, a status that is not a success)
  ends in the \<open>catch\<close>, which sets the message.
\<close>

definition searchByName :: "services \<Rightarrow> jsstring \<Rightarrow> session \<Rightarrow> session" where
  "searchByName sv nm s =
     (if \<not> encodable nm then s\<lparr>error := Some Carta_nao_reconhecida\<rparr>
      else
        let s1 = s\<lparr>sent := sent s @ [Autocomplete nm]\<rparr> in
        case autocomplete sv nm of
          Threw \<Rightarrow> s1\<lparr>error := Some Carta_nao_reconhecida\<rparr>
        | Json autoData \<Rightarrow>
            let targetName = (case autoData of Some (first # _) \<Rightarrow> first | _ \<Rightarrow> nm) in
            if \<not> encodable targetName then s1\<lparr>error := Some Carta_nao_reconhecida\<rparr>
            else
              let s2 = s1\<lparr>sent := sent s1 @ [Named_fuzzy targetName]\<rparr> in
              (case named_fuzzy sv targetName of
                 Ok_json data \<Rightarrow> fetchPTVersion sv data s2
               | Status_error \<Rightarrow> s2\<lparr>error := Some Carta_nao_reconhecida\<rparr>
               | Rejected \<Rightarrow> s2\<lparr>error := Some Carta_nao_reconhecida\<rparr>))"

text \<open>
  \<open>searchByInfo\<close> of the two-zone scanner.  Its \<open>catch\<close> block reads
  \<^verbatim>\<open>// Fallback to name if set info fails\<close>
  and sets the error message, nothing else.
\<close>

definition searchByInfo :: "services \<Rightarrow> jsstring \<Rightarrow> jsstring \<Rightarrow> session \<Rightarrow> session" where
  "searchByInfo sv set_code num s =
     (let s1 = s\<lparr>sent := sent s @ [Card_by_set (toLowerCase set_code) num]\<rparr> in
      case card_by_set sv (toLowerCase set_code) num of
        Ok_json data \<Rightarrow> fetchPTVersion sv data s1
      | Status_error \<Rightarrow> s1\<lparr>error := Some Colecao_nao_encontrada\<rparr>
      | Rejected \<Rightarrow> s1\<lparr>error := Some Colecao_nao_encontrada\<rparr>)"

text \<open>
  \<open>captureAndScan\<close> of the two-zone scanner, from the point where the worker has
  recognized \<open>nameText\<close> in the name zone and \<open>infoText\<close> in the collector-info zone.
  \<open>debug_line\<close> is the template
  \<^verbatim>\<open>Nome: ${cleanName.substring(0, 10)}... | Info: ${setCode || '?'}/${collectorNum || '?'}\<close>
\<close>

definition debug_line :: "jsstring \<Rightarrow> jsstring option \<Rightarrow> jsstring option \<Rightarrow> jsstring" where
  "debug_line cleaned setCode collectorNum =
     js ''Nome: '' @ take 10 cleaned @ js ''... | Info: ''
     @ or_else setCode (js ''?'') @ js ''/'' @ or_else collectorNum (js ''?'')"

definition captureAndScan :: "services \<Rightarrow> jsstring \<Rightarrow> jsstring \<Rightarrow> session \<Rightarrow> session" where
  "captureAndScan sv nameText infoText s =
     (let s0 = s\<lparr>loading := True, error := None, debugText := js ''Analisando carta...''\<rparr>;
          cleaned = cleanName nameText;
          found = infoMatch infoText;
          setCode = map_option (\<lambda>(g, d). toUpperCase g) found;
          collectorNum = map_option (\<lambda>(g, d). d) found;
          s1 = s0\<lparr>debugText := debug_line cleaned setCode collectorNum\<rparr>;
          s2 = (if truthy setCode \<and> truthy collectorNum
                  then searchByInfo sv (or_else setCode []) (or_else collectorNum []) s1
                else if 3 < length cleaned then searchByName sv cleaned s1
                else s1\<lparr>error := Some Nao_identificada\<rparr>)
      in s2\<lparr>loading := False\<rparr>)"

text \<open>
  \<open>fetchPTVersion\<close> of the full-frame scanner: as above, but the record kept when
  no Portuguese printing is found has its \<open>translated_text\<close> cleared.
\<close>

definition fetchPTVersion_full :: "services \<Rightarrow> card \<Rightarrow> session \<Rightarrow> session" where
  "fetchPTVersion_full sv cardData s =
     (if lang cardData = js ''pt'' then s\<lparr>result := Some cardData\<rparr>
      else
        let s1 = s\<lparr>sent := sent s @ [Search_pt (name cardData)]\<rparr>;
            kept = cardData\<lparr>translated_text := None\<rparr> in
        (case search_pt sv (name cardData) of
           Ok_json ptData \<Rightarrow>
             (case ptData of
                Some (c # _) \<Rightarrow> s1\<lparr>result := Some c\<rparr>
              | _ \<Rightarrow> s1\<lparr>result := Some kept\<rparr>)
         | Status_error \<Rightarrow> s1\<lparr>result := Some kept\<rparr>
         | Rejected \<Rightarrow> s1\<lparr>result := Some kept\<rparr>))"

text \<open>
  \<open>searchMultipleFuzzy\<close> of the full-frame scanner: the candidate lines in order; the
  fuzzy lookup is inside \<open>if (autoData.data && autoData.data.length > 0)\<close>, and every
  fault is swallowed by the \<open>catch\<close> of the loop body.  The result is the returned
  flag and the state.
\<close>

fun searchMultipleFuzzy :: "services \<Rightarrow> jsstring list \<Rightarrow> session \<Rightarrow> bool \<times> session" where
  "searchMultipleFuzzy sv [] s = (False, s)"
| "searchMultipleFuzzy sv (line # lines) s =
     (if \<not> encodable line then searchMultipleFuzzy sv lines s
      else
        let s1 = s\<lparr>sent := sent s @ [Autocomplete line]\<rparr> in
        case autocomplete sv line of
          Threw \<Rightarrow> searchMultipleFuzzy sv lines s1
        | Json autoData \<Rightarrow>
            (case autoData of
               Some (guess # _) \<Rightarrow>
                 if \<not> encodable guess then searchMultipleFuzzy sv lines s1
                 else
                   (let s2 = s1\<lparr>sent := sent s1 @ [Named_fuzzy guess]\<rparr> in
                    case named_fuzzy sv guess of
                      Ok_json data \<Rightarrow> (True, fetchPTVersion_full sv data s2)
                    | Status_error \<Rightarrow> searchMultipleFuzzy sv lines s2
                    | Rejected \<Rightarrow> searchMultipleFuzzy sv lines s2)
             | _ \<Rightarrow> searchMultipleFuzzy sv lines s1))"

subsection \<open>The photo scanner\<close>

text \<open>
  \<open>searchByName\<close> of the photo scanner: a status that is not a success sets the
  message; the \<open>catch\<close> is empty.
\<close>

definition searchByName_photo :: "services \<Rightarrow> jsstring \<Rightarrow> session \<Rightarrow> session" where
  "searchByName_photo sv nm s =
     (if \<not> encodable nm then s
      else
        let s1 = s\<lparr>sent := sent s @ [Autocomplete nm]\<rparr> in
        case autocomplete sv nm of
          Threw \<Rightarrow> s1
        | Json autoData \<Rightarrow>
            let target = (case autoData of Some (first # _) \<Rightarrow> first | _ \<Rightarrow> nm) in
            if \<not> encodable target then s1
            else
              let s2 = s1\<lparr>sent := sent s1 @ [Named_fuzzy target]\<rparr> in
              (case named_fuzzy sv target of
                 Ok_json data \<Rightarrow> fetchPTVersion sv data s2
               | Status_error \<Rightarrow> s2\<lparr>error := Some Nao_encontrada_no_banco\<rparr>
               | Rejected \<Rightarrow> s2))"

text \<open>
  \<open>searchBySet\<close> of the photo scanner: on a status that is not a success the debug
  line is set ("Codigo nao encontrado, tentando por nome...", with its accents) and the
  name search runs on \<open>set + " " + num\<close>; the \<open>catch\<close> is empty.
\<close>

definition searchBySet_photo :: "services \<Rightarrow> jsstring \<Rightarrow> jsstring \<Rightarrow> session \<Rightarrow> session" where
  "searchBySet_photo sv set_code num s =
     (let s1 = s\<lparr>sent := sent s @ [Card_by_set (toLowerCase set_code) num]\<rparr> in
      case card_by_set sv (toLowerCase set_code) num of
        Ok_json data \<Rightarrow> fetchPTVersion sv data s1
      | Status_error \<Rightarrow>
          searchByName_photo sv (set_code @ js '' '' @ num)
            (s1\<lparr>debugText := js ''C'' @ [0xF3] @ js ''digo n'' @ [0xE3]
                   @ js ''o encontrado, tentando por nome...''\<rparr>)
      | Rejected \<Rightarrow> s1)"

text \<open>
  \<open>processPhoto\<close> of the photo scanner, from the point where the worker has recognized
  \<open>titleText\<close> and \<open>infoText\<close>; the \<open>finally\<close> lowers the busy flag and clears the
  debug line.
\<close>

definition processPhoto :: "services \<Rightarrow> jsstring \<Rightarrow> jsstring \<Rightarrow> session \<Rightarrow> session" where
  "processPhoto sv titleText infoText s =
     (let s1 = (case codes infoText of
                  Some (g, d) \<Rightarrow> searchBySet_photo sv g d s
                | None \<Rightarrow>
                    if 2 < length (cleanTitle titleText)
                      then searchByName_photo sv (cleanTitle titleText) s
                    else s\<lparr>error := Some Nao_li_o_nome\<rparr>)
      in s1\<lparr>loading := False, debugText := []\<rparr>)"

subsection \<open>The dual-pass scanner (second component of \<open>unnamed/part_004\<close>)\<close>

definition searchByName_dual :: "services \<Rightarrow> jsstring \<Rightarrow> session \<Rightarrow> session" where
  "searchByName_dual sv nm s =
     (if \<not> encodable nm then s
      else
        let s1 = s\<lparr>sent := sent s @ [Autocomplete nm]\<rparr> in
        case autocomplete sv nm of
          Threw \<Rightarrow> s1
        | Json autoData \<Rightarrow>
            let targetName = (case autoData of Some (first # _) \<Rightarrow> first | _ \<Rightarrow> nm) in
            if \<not> encodable targetName then s1
            else
              let s2 = s1\<lparr>sent := sent s1 @ [Named_fuzzy targetName]\<rparr> in
              (case named_fuzzy sv targetName of
                 Ok_json data \<Rightarrow> fetchPTVersion sv data s2
               | Status_error \<Rightarrow> s2\<lparr>error := Some Carta_nao_identificada\<rparr>
               | Rejected \<Rightarrow> s2))"

text \<open>
  \<open>searchByInfo\<close> of the dual-pass scanner: a status that is not a success sets the
  message ("... Tentando por nome...") and nothing else; the \<open>catch\<close> is empty.
\<close>

definition searchByInfo_dual :: "services \<Rightarrow> jsstring \<Rightarrow> jsstring \<Rightarrow> session \<Rightarrow> session" where
  "searchByInfo_dual sv set_code num s =
     (let s1 = s\<lparr>sent := sent s @ [Card_by_set (toLowerCase set_code) num]\<rparr> in
      case card_by_set sv (toLowerCase set_code) num of
        Ok_json data \<Rightarrow> fetchPTVersion sv data s1
      | Status_error \<Rightarrow> s1\<lparr>error := Some Rodape_nao_encontrado\<rparr>
      | Rejected \<Rightarrow> s1)"

text \<open>
  \<open>captureAndScan\<close> of the dual-pass scanner, from the point where the worker has
  recognized \<open>titleText\<close> in the title pass and \<open>text\<close> in the collector-info pass (the
  busy flag is up and the error cleared by then); the \<open>finally\<close> lowers the busy flag
  and clears the debug line.
\<close>

definition captureAndScan_dual :: "services \<Rightarrow> jsstring \<Rightarrow> jsstring \<Rightarrow> session \<Rightarrow> session" where
  "captureAndScan_dual sv titleText text s =
     (let s0 = s\<lparr>loading := True, error := None\<rparr>;
          s1 = (case codes text of
                  Some (g, d) \<Rightarrow>
                    searchByInfo_dual sv g d
                      (s0\<lparr>debugText := js ''ID Encontrado: '' @ g @ js ''/'' @ d\<rparr>)
                | None \<Rightarrow>
                    if 3 < length (cleanTitle titleText)
                      then searchByName_dual sv (cleanTitle titleText)
                        (s0\<lparr>debugText := js ''Buscando Nome: ''
                             @ take 10 (cleanTitle titleText) @ js ''...''\<rparr>)
                    else s0\<lparr>error := Some Nao_li_a_carta\<rparr>)
      in s1\<lparr>loading := False, debugText := []\<rparr>)"

section \<open>Binarization\<close>

text \<open>
  The pixel data of a canvas (\<open>ImageData.data\<close>) is an array of bytes, four per
  pixel: red, green, blue, alpha.
\<close>

type_synonym byte = "8 word"

text \<open>
  The loop shared by every variant of the pre-processing,
  \<^verbatim>\<open>for (let i = 0; i < data.length; i += 4) {
     const v = <brightness of data[i], data[i+1], data[i+2]> > <cutoff> ? 255 : 0;
     data[i] = data[i + 1] = data[i + 2] = v; }\<close>
  with the brightness test as its parameter.  The length of \<open>ImageData.data\<close> is a
  multiple of four; the last three equations say what the loop would do on a typed
  array of another length, where a read past the end is \<open>undefined\<close> (the brightness is
  then \<open>NaN\<close>, no test succeeds, and \<open>v\<close> is 0) and a write past the end is dropped.
\<close>

fun binarize :: "(byte \<Rightarrow> byte \<Rightarrow> byte \<Rightarrow> bool) \<Rightarrow> byte list \<Rightarrow> byte list" where
  "binarize bright (r # g # b # a # rest) =
     (let v = (if bright r g b then 255 else 0) in v # v # v # a # binarize bright rest)"
| "binarize bright [r, g, b] = (let v = (if bright r g b then 255 else 0) in [v, v, v])"
| "binarize bright [r, g] = [0, 0]"
| "binarize bright [r] = [0]"
| "binarize bright [] = []"

text \<open>
  The brightness tests.  The weighted sums are written in exact arithmetic, scaled to
  integers: \<open>0.2126 * r + 0.7152 * g + 0.0722 * b > 130\<close> is
  \<open>2126 r + 7152 g + 722 b > 1300000\<close>.  The source evaluates them in double precision;
  on bytes the two agree (the exact sums are multiples of \<open>1/10000\<close>, resp. \<open>1/1000\<close>,
  the rounding error is below one part in \<open>10 ^ 12\<close>, and the sums that equal the cutoff are not
  rounded above it), and \<open>(r + g + b) / 3 > 128\<close> is \<open>r + g + b > 384\<close> since the
  division is correctly rounded.
\<close>

definition above_130 :: "byte \<Rightarrow> byte \<Rightarrow> byte \<Rightarrow> bool" where
  "above_130 r g b \<longleftrightarrow> 2126 * unat r + 7152 * unat g + 722 * unat b > 1300000"

definition above_140 :: "byte \<Rightarrow> byte \<Rightarrow> byte \<Rightarrow> bool" where
  "above_140 r g b \<longleftrightarrow> 299 * unat r + 587 * unat g + 114 * unat b > 140000"

definition avg_above_128 :: "byte \<Rightarrow> byte \<Rightarrow> byte \<Rightarrow> bool" where
  "avg_above_128 r g b \<longleftrightarrow> unat r + unat g + unat b > 3 * 128"

text \<open>
  \<open>preprocessImage\<close> of the two-zone scanner (weights 0.2126, 0.7152, 0.0722;
  cutoff 130).
\<close>

definition preprocessImage :: "byte list \<Rightarrow> byte list" where
  "preprocessImage data = binarize above_130 data"

text \<open>
  \<open>preprocessImage\<close> of the full-frame scanner (weights 0.299, 0.587, 0.114;
  cutoff 140).
\<close>

definition preprocessImage_full :: "byte list \<Rightarrow> byte list" where
  "preprocessImage_full data = binarize above_140 data"

text \<open>
  The threshold loop inside \<open>captureAndScan\<close> of the first scanner (mean of the
  channels; cutoff 128).
\<close>

definition threshold_loop :: "byte list \<Rightarrow> byte list" where
  "threshold_loop data = binarize avg_above_128 data"

section \<open>Concrete values for the examples\<close>

definition bolt_en :: card where
  "bolt_en = \<lparr>name = js ''Lightning Bolt'', printed_name = None,
     type_line = js ''Instant'', printed_type_line = None,
     oracle_text = Some (js ''Lightning Bolt deals 3 damage to any target.''),
     printed_text = None, translated_text = None, image_uris = None,
     lang = js ''en''\<rparr>"

definition bolt_pt :: card where
  "bolt_pt = \<lparr>name = js ''Lightning Bolt'', printed_name = Some (js ''Raio''),
     type_line = js ''Instant'', printed_type_line = Some (js ''Magica Instantanea''),
     oracle_text = None,
     printed_text = Some (js ''Raio causa 3 pontos de dano a qualquer alvo.''),
     translated_text = None, image_uris = None,
     lang = js ''pt''\<rparr>"

definition bolt_old :: card where
  "bolt_old = bolt_en\<lparr>translated_text := Some (js ''traducao antiga'')\<rparr>"

definition idle :: session where
  "idle = \<lparr>result = None, loading = False, error = None, debugText = [], sent = []\<rparr>"

text \<open>
  A catalog and translator that are out of reach (every call throws), and a catalog
  whose autocomplete never suggests anything but whose fuzzy lookup knows Lightning Bolt.
\<close>

definition offline :: services where
  "offline = \<lparr>card_by_set = (\<lambda>_ _. Rejected), autocomplete = (\<lambda>_. Threw),
     named_fuzzy = (\<lambda>_. Rejected), search_pt = (\<lambda>_. Rejected),
     translate_gtx = (\<lambda>_. Threw)\<rparr>"

text \<open>
  A catalog that knows Lightning Bolt by name and in Portuguese, has no card under any
  (set, number) key, and a translator that answers in two segments.
\<close>

definition quiet :: services where
  "quiet = \<lparr>card_by_set = (\<lambda>_ _. Status_error), autocomplete = (\<lambda>_. Json (Some [])),
     named_fuzzy = (\<lambda>q. if q = js ''Lightning Bolt'' then Ok_json bolt_en else Status_error),
     search_pt = (\<lambda>_. Ok_json (Some [])), translate_gtx = (\<lambda>_. Threw)\<rparr>"

definition online :: services where
  "online = \<lparr>card_by_set = (\<lambda>_ _. Status_error),
     autocomplete = (\<lambda>q. Json (Some (if q = js ''Lightning Bol'' then [js ''Lightning Bolt''] else []))),
     named_fuzzy = (\<lambda>q. if q = js ''Lightning Bolt'' then Ok_json bolt_en else Status_error),
     search_pt = (\<lambda>n. if n = js ''Lightning Bolt'' then Ok_json (Some [bolt_pt]) else Ok_json (Some [])),
     translate_gtx = (\<lambda>_. Json [js ''Raio causa 3 pontos de dano '', js ''a qualquer alvo.''])\<rparr>"


section \<open>The translate action\<close>

lemma translateText_no_record:
  "result s = None \<Longrightarrow> translateText sv s = s"
  by (simp add: translateText_def)

lemma translateText_no_text:
  "result s = Some r \<Longrightarrow> \<not> truthy (oracle_text r) \<Longrightarrow> translateText sv s = s"
  by (simp add: translateText_def truthy_def split: option.splits)

lemma translateText_full_no_record:
  "result s = None \<Longrightarrow> translateText_full sv s = s"
  by (simp add: translateText_full_def)

lemma translateText_full_no_text:
  "result s = Some r \<Longrightarrow> \<not> truthy (oracle_text r) \<Longrightarrow> translateText_full sv s = s"
  by (simp add: translateText_full_def truthy_def split: option.splits)

lemma translateText_Json:
  "result s = Some r \<Longrightarrow> oracle_text r = Some t \<Longrightarrow> t \<noteq> [] \<Longrightarrow> encodable t \<Longrightarrow>
   translate_gtx sv t = Json segs \<Longrightarrow>
   translateText sv s =
     s\<lparr>result := Some (r\<lparr>translated_text := Some (concat segs)\<rparr>), loading := False,
       sent := sent s @ [Translate t]\<rparr>"
  by (simp add: translateText_def)

lemma translateText_Threw:
  "result s = Some r \<Longrightarrow> oracle_text r = Some t \<Longrightarrow> t \<noteq> [] \<Longrightarrow> encodable t \<Longrightarrow>
   translate_gtx sv t = Threw \<Longrightarrow>
   translateText sv s =
     s\<lparr>loading := False, error := Some Erro_na_traducao, sent := sent s @ [Translate t]\<rparr>"
  by (simp add: translateText_def)

lemma translateText_URIError:
  "result s = Some r \<Longrightarrow> oracle_text r = Some t \<Longrightarrow> t \<noteq> [] \<Longrightarrow> \<not> encodable t \<Longrightarrow>
   translateText sv s = s\<lparr>loading := False, error := Some Erro_na_traducao\<rparr>"
  by (simp add: translateText_def)

lemma translateText_full_Threw:
  "result s = Some r \<Longrightarrow> oracle_text r = Some t \<Longrightarrow> t \<noteq> [] \<Longrightarrow> encodable t \<Longrightarrow>
   translate_gtx sv t = Threw \<Longrightarrow>
   translateText_full sv s =
     s\<lparr>loading := False, error := Some Erro_ao_traduzir, sent := sent s @ [Translate t]\<rparr>"
  by (simp add: translateText_full_def)

lemma translateText_full_URIError:
  "result s = Some r \<Longrightarrow> oracle_text r = Some t \<Longrightarrow> t \<noteq> [] \<Longrightarrow> \<not> encodable t \<Longrightarrow>
   translateText_full sv s = s\<lparr>loading := False, error := Some Erro_ao_traduzir\<rparr>"
  by (simp add: translateText_full_def)

text \<open>
  C10.  Invoking the translate action when no record is displayed, or when the displayed
  record has no original rules text (the field is missing or empty), changes nothing:
  the record, the error, the busy flag and the debug line stay as they were and no
  request is issued.  This holds for both handlers named \<open>translateText\<close>.
\<close>

theorem translateText_noop:
  assumes "result s = None \<or> (\<exists>r. result s = Some r \<and> \<not> truthy (oracle_text r))"
  shows "translateText sv s = s \<and> translateText_full sv s = s"
  using assms
proof (elim disjE exE conjE)
  assume "result s = None"
  then show ?thesis
    by (simp only: translateText_no_record translateText_full_no_record)
next
  fix r assume "result s = Some r" "\<not> truthy (oracle_text r)"
  then show ?thesis
    using translateText_no_text [of s r sv] translateText_full_no_text [of s r sv] by simp
qed

theorem translateText_noop_witness:
  "(result (idle\<lparr>result := Some bolt_pt\<rparr>) = None
      \<or> (\<exists>r. result (idle\<lparr>result := Some bolt_pt\<rparr>) = Some r \<and> \<not> truthy (oracle_text r)))
   \<and> (translateText online (idle\<lparr>result := Some bolt_pt\<rparr>) = idle\<lparr>result := Some bolt_pt\<rparr>
   \<and> translateText_full online (idle\<lparr>result := Some bolt_pt\<rparr>) = idle\<lparr>result := Some bolt_pt\<rparr>)"
proof -
  have b: "result (idle\<lparr>result := Some bolt_pt\<rparr>) = None
        \<or> (\<exists>r. result (idle\<lparr>result := Some bolt_pt\<rparr>) = Some r \<and> \<not> truthy (oracle_text r))"
    by (simp add: bolt_pt_def truthy_def)
  show ?thesis
    by (rule conjI [OF b translateText_noop [OF b]])
qed

text \<open>
  C8.  When the translation call fails, the displayed record is left as it was (no
  field changes, \<open>translated_text\<close> included), the error message of the handler is set
  and the busy flag is lowered again, so the action can be retried.
\<close>

theorem translateText_failure:
  assumes "result s = Some r" and "oracle_text r = Some t" and "t \<noteq> []"
    and "translate_gtx sv t = Threw"
  shows "result (translateText sv s) = Some r
    \<and> error (translateText sv s) = Some Erro_na_traducao
    \<and> loading (translateText sv s) = False
    \<and> result (translateText_full sv s) = Some r
    \<and> error (translateText_full sv s) = Some Erro_ao_traduzir
    \<and> loading (translateText_full sv s) = False"
proof (cases "encodable t")
  case True
  with assms show ?thesis
    by (simp add: translateText_Threw [OF assms(1-3) True assms(4)]
        translateText_full_Threw [OF assms(1-3) True assms(4)])
next
  case False
  with assms show ?thesis
    by (simp add: translateText_URIError [OF assms(1-3) False]
        translateText_full_URIError [OF assms(1-3) False])
qed

theorem translateText_failure_witness:
  "result (translateText offline (idle\<lparr>result := Some bolt_en\<rparr>)) = Some bolt_en
    \<and> error (translateText offline (idle\<lparr>result := Some bolt_en\<rparr>)) = Some Erro_na_traducao
    \<and> loading (translateText offline (idle\<lparr>result := Some bolt_en\<rparr>)) = False
    \<and> result (translateText_full offline (idle\<lparr>result := Some bolt_en\<rparr>)) = Some bolt_en
    \<and> error (translateText_full offline (idle\<lparr>result := Some bolt_en\<rparr>)) = Some Erro_ao_traduzir
    \<and> loading (translateText_full offline (idle\<lparr>result := Some bolt_en\<rparr>)) = False"
proof (rule translateText_failure)
  show "result (idle\<lparr>result := Some bolt_en\<rparr>) = Some bolt_en" by simp
  show "oracle_text bolt_en = Some (js ''Lightning Bolt deals 3 damage to any target.'')"
    by (simp add: bolt_en_def)
  show "js ''Lightning Bolt deals 3 damage to any target.'' \<noteq> []"
    by (simp add: js_def)
  show "translate_gtx offline (js ''Lightning Bolt deals 3 damage to any target.'') = Threw"
    by (simp add: offline_def)
qed

text \<open>
  C7.  With the translator a function of the text sent, invoking the translate action
  twice in succession leaves the same record, error and busy flag as invoking it once,
  whatever the record and whether the invocation succeeds or fails; and an invocation
  that succeeds (the rules text can be encoded into the address and the translator
  answers) sets \<open>translated_text\<close> to the joined segments whatever translation the
  record carried before.
\<close>

theorem translateText_twice:
  "result (translateText sv (translateText sv s)) = result (translateText sv s)
   \<and> error (translateText sv (translateText sv s)) = error (translateText sv s)
   \<and> loading (translateText sv (translateText sv s)) = loading (translateText sv s)
   \<and> (\<forall>r t segs. result s = Some r \<and> oracle_text r = Some t \<and> t \<noteq> [] \<and> encodable t
          \<and> translate_gtx sv t = Json segs \<longrightarrow>
        result (translateText sv s) = Some (r\<lparr>translated_text := Some (concat segs)\<rparr>))"
proof -
  have once: "\<forall>r t segs. result s = Some r \<and> oracle_text r = Some t \<and> t \<noteq> [] \<and> encodable t
          \<and> translate_gtx sv t = Json segs \<longrightarrow>
        result (translateText sv s) = Some (r\<lparr>translated_text := Some (concat segs)\<rparr>)"
    by (simp add: translateText_Json)
  have twice: "result (translateText sv (translateText sv s)) = result (translateText sv s)
   \<and> error (translateText sv (translateText sv s)) = error (translateText sv s)
   \<and> loading (translateText sv (translateText sv s)) = loading (translateText sv s)"
  proof (cases "result s")
    case None
    then show ?thesis by (simp add: translateText_no_record)
  next
    case (Some r)
    show ?thesis
    proof (cases "truthy (oracle_text r)")
      case False
      with Some show ?thesis by (simp add: translateText_no_text)
    next
      case True
      then obtain t where t: "oracle_text r = Some t" "t \<noteq> []"
        by (auto simp: truthy_def split: option.splits)
      show ?thesis
      proof (cases "encodable t")
        case unpaired: False
        let ?s1 = "s\<lparr>loading := False, error := Some Erro_na_traducao\<rparr>"
        have 1: "translateText sv s = ?s1"
          by (rule translateText_URIError [OF Some t unpaired])
        have "result ?s1 = Some r" using Some by simp
        from translateText_URIError [OF this t unpaired] 1 show ?thesis by simp
      next
        case enc: True
        show ?thesis
        proof (cases "translate_gtx sv t")
          case Threw
          let ?s1 = "s\<lparr>loading := False, error := Some Erro_na_traducao,
                       sent := sent s @ [Translate t]\<rparr>"
          have 1: "translateText sv s = ?s1"
            by (rule translateText_Threw [OF Some t enc Threw])
          have "result ?s1 = Some r" using Some by simp
          from translateText_Threw [OF this t enc Threw] 1 show ?thesis by simp
        next
          case (Json segs)
          let ?r1 = "r\<lparr>translated_text := Some (concat segs)\<rparr>"
          let ?s1 = "s\<lparr>result := Some ?r1, loading := False, sent := sent s @ [Translate t]\<rparr>"
          have 1: "translateText sv s = ?s1"
            by (rule translateText_Json [OF Some t enc Json])
          have a: "result ?s1 = Some ?r1" by simp
          have b: "oracle_text ?r1 = Some t" using t by simp
          from translateText_Json [OF a b t(2) enc Json] 1 show ?thesis by simp
        qed
      qed
    qed
  qed
  show ?thesis
    using twice once by (elim conjE) (intro conjI; assumption)
qed

theorem translateText_twice_witness:
  "result (translateText online (translateText online (idle\<lparr>result := Some bolt_old\<rparr>)))
     = Some (bolt_old\<lparr>translated_text :=
               Some (js ''Raio causa 3 pontos de dano a qualquer alvo.'')\<rparr>)
   \<and> result (translateText online (idle\<lparr>result := Some bolt_old\<rparr>))
     = Some (bolt_old\<lparr>translated_text :=
               Some (js ''Raio causa 3 pontos de dano a qualquer alvo.'')\<rparr>)"
proof -
  let ?s = "idle\<lparr>result := Some bolt_old\<rparr>"
  let ?t = "js ''Lightning Bolt deals 3 damage to any target.''"
  let ?segs = "[js ''Raio causa 3 pontos de dano '', js ''a qualquer alvo.'']"
  note T = translateText_twice [of online ?s]
  have enc: "encodable ?t"
    by (simp add: js_def high_surrogate_def low_surrogate_def)
  have h: "result ?s = Some bolt_old \<and> oracle_text bolt_old = Some ?t \<and> ?t \<noteq> []
      \<and> encodable ?t \<and> translate_gtx online ?t = Json ?segs"
    using enc by (simp add: bolt_old_def bolt_en_def online_def js_def)
  have c: "concat ?segs = js ''Raio causa 3 pontos de dano a qualquer alvo.''"
    by (simp add: js_def)
  have once: "result (translateText online ?s)
      = Some (bolt_old\<lparr>translated_text := Some (concat ?segs)\<rparr>)"
    by (rule T [THEN conjunct2, THEN conjunct2, THEN conjunct2, rule_format, OF h])
  have twice: "result (translateText online (translateText online ?s))
      = result (translateText online ?s)"
    by (rule T [THEN conjunct1])
  show ?thesis
    unfolding twice once c by simp
qed

section \<open>The Localization state\<close>

lemma fetchPTVersion_pt:
  "lang c = js ''pt'' \<Longrightarrow> fetchPTVersion sv c s = s\<lparr>result := Some c\<rparr>"
  by (simp add: fetchPTVersion_def)

lemma fetchPTVersion_hit:
  "lang c \<noteq> js ''pt'' \<Longrightarrow> search_pt sv (name c) = Ok_json (Some (h # hs)) \<Longrightarrow>
   fetchPTVersion sv c s = s\<lparr>result := Some h, sent := sent s @ [Search_pt (name c)]\<rparr>"
  by (simp add: fetchPTVersion_def)

lemma fetchPTVersion_miss:
  assumes "lang c \<noteq> js ''pt''"
    and "\<forall>h hs. search_pt sv (name c) \<noteq> Ok_json (Some (h # hs))"
  shows "fetchPTVersion sv c s = s\<lparr>result := Some c, sent := sent s @ [Search_pt (name c)]\<rparr>"
proof (cases "search_pt sv (name c)")
  case Rejected
  with assms(1) show ?thesis by (simp add: fetchPTVersion_def)
next
  case Status_error
  with assms(1) show ?thesis by (simp add: fetchPTVersion_def)
next
  case (Ok_json ptData)
  show ?thesis
  proof (cases ptData)
    case None
    with Ok_json assms(1) show ?thesis by (simp add: fetchPTVersion_def)
  next
    case (Some hits)
    with Ok_json assms(2) have "hits = []" by (cases hits) simp_all
    with Some Ok_json assms(1) show ?thesis by (simp add: fetchPTVersion_def)
  qed
qed

text \<open>
  C2.  A resolved record entering \<open>fetchPTVersion\<close>: if its language is already
  Portuguese it becomes the result as it is and nothing is asked of the catalog;
  otherwise exactly one search for the same name in Portuguese is issued; if that search
  answers with at least one hit, the first hit as a whole becomes the result; in every
  other case (the call throws, the status is not a success, the body has no \<open>data\<close> or
  an empty one) the original record becomes the result.  The error message is never
  touched.
\<close>

theorem fetchPTVersion_localization:
  "(lang c = js ''pt'' \<longrightarrow>
      result (fetchPTVersion sv c s) = Some c \<and> sent (fetchPTVersion sv c s) = sent s)
   \<and> (lang c \<noteq> js ''pt'' \<longrightarrow>
      sent (fetchPTVersion sv c s) = sent s @ [Search_pt (name c)]
      \<and> (\<forall>h hs. search_pt sv (name c) = Ok_json (Some (h # hs)) \<longrightarrow>
            result (fetchPTVersion sv c s) = Some h)
      \<and> ((\<forall>h hs. search_pt sv (name c) \<noteq> Ok_json (Some (h # hs))) \<longrightarrow>
            result (fetchPTVersion sv c s) = Some c))
   \<and> error (fetchPTVersion sv c s) = error s"
proof (cases "lang c = js ''pt''")
  case True
  then show ?thesis by (simp add: fetchPTVersion_pt)
next
  case False
  show ?thesis
  proof (cases "\<exists>h hs. search_pt sv (name c) = Ok_json (Some (h # hs))")
    case True
    then obtain h hs where "search_pt sv (name c) = Ok_json (Some (h # hs))" by blast
    with False show ?thesis by (simp add: fetchPTVersion_hit)
  next
    case no: False
    then have "\<forall>h hs. search_pt sv (name c) \<noteq> Ok_json (Some (h # hs))" by simp
    from fetchPTVersion_miss [OF False this] False no show ?thesis by simp
  qed
qed

theorem fetchPTVersion_localization_witness:
  "result (fetchPTVersion online bolt_pt idle) = Some bolt_pt
   \<and> sent (fetchPTVersion online bolt_pt idle) = []
   \<and> result (fetchPTVersion online bolt_en idle) = Some bolt_pt
   \<and> sent (fetchPTVersion online bolt_en idle) = [Search_pt (js ''Lightning Bolt'')]
   \<and> result (fetchPTVersion offline bolt_en idle) = Some bolt_en
   \<and> error (fetchPTVersion offline bolt_en idle) = None"
proof -
  have pt: "lang bolt_pt = js ''pt''" by (simp add: bolt_pt_def)
  have en: "lang bolt_en \<noteq> js ''pt''" by (simp add: bolt_en_def js_def)
  have nm: "name bolt_en = js ''Lightning Bolt''" by (simp add: bolt_en_def)
  have hit: "search_pt online (name bolt_en) = Ok_json (Some (bolt_pt # []))"
    by (simp add: online_def nm)
  have miss: "\<forall>h hs. search_pt offline (name bolt_en) \<noteq> Ok_json (Some (h # hs))"
    by (simp add: offline_def)
  note A = fetchPTVersion_localization [of bolt_pt online idle]
  note B = fetchPTVersion_localization [of bolt_en online idle]
  note C = fetchPTVersion_localization [of bolt_en offline idle]
  have a: "result (fetchPTVersion online bolt_pt idle) = Some bolt_pt
      \<and> sent (fetchPTVersion online bolt_pt idle) = sent idle"
    by (rule A [THEN conjunct1, rule_format, OF pt])
  have b: "sent (fetchPTVersion online bolt_en idle) = sent idle @ [Search_pt (name bolt_en)]"
    by (rule B [THEN conjunct2, THEN conjunct1, rule_format, OF en, THEN conjunct1])
  have b': "result (fetchPTVersion online bolt_en idle) = Some bolt_pt"
    by (rule B [THEN conjunct2, THEN conjunct1, rule_format, OF en,
          THEN conjunct2, THEN conjunct1, rule_format, OF hit])
  have c: "result (fetchPTVersion offline bolt_en idle) = Some bolt_en"
    by (rule C [THEN conjunct2, THEN conjunct1, rule_format, OF en,
          THEN conjunct2, THEN conjunct2, rule_format, OF miss [rule_format]])
  have c': "error (fetchPTVersion offline bolt_en idle) = error idle"
    by (rule C [THEN conjunct2, THEN conjunct2])
  show ?thesis
    using a b b' c c' by (simp add: idle_def nm)
qed

section \<open>Binarization\<close>

lemma length_binarize: "length (binarize bright d) = length d"
  by (induction bright d rule: binarize.induct) (simp_all add: Let_def)

lemma binarize_twice:
  assumes "\<not> bright 0 0 0" and "bright 255 255 255"
  shows "binarize bright (binarize bright d) = binarize bright d"
  using assms
  by (induction bright d rule: binarize.induct) (simp_all add: Let_def)

lemma nth_quad: "(a # b # c # d # xs) ! (4 * Suc i + k) = xs ! (4 * i + k)"
  by (simp add: numeral_eq_Suc)

lemma binarize_pixel:
  "4 * i + 3 < length d \<Longrightarrow>
   binarize bright d ! (4 * i + 1) = binarize bright d ! (4 * i)
   \<and> binarize bright d ! (4 * i + 2) = binarize bright d ! (4 * i)
   \<and> (binarize bright d ! (4 * i) = 0 \<or> binarize bright d ! (4 * i) = 255)
   \<and> binarize bright d ! (4 * i + 3) = d ! (4 * i + 3)"
proof (induction bright d arbitrary: i rule: binarize.induct)
  case (1 bright r g b a rest)
  show ?case
  proof (cases i)
    case 0
    then show ?thesis by (simp add: Let_def numeral_eq_Suc)
  next
    case (Suc j)
    with "1.prems" have "4 * j + 3 < length rest" by simp
    from "1.IH" [OF refl this] Suc show ?thesis
      by (simp add: Let_def add.commute)
  qed
qed simp_all

text \<open>
  C5.  The binarization is a function of the pixel data, and applying it to its own
  output changes nothing: this holds for \<open>preprocessImage\<close> of the two-zone scanner, for
  \<open>preprocessImage\<close> of the full-frame scanner and for the threshold loop of the first
  scanner.
\<close>

theorem binarization_idempotent:
  "preprocessImage (preprocessImage d) = preprocessImage d
   \<and> preprocessImage_full (preprocessImage_full d) = preprocessImage_full d
   \<and> threshold_loop (threshold_loop d) = threshold_loop d"
proof -
  have "\<not> above_130 0 0 0" and "above_130 255 255 255"
    by (simp_all add: above_130_def)
  then have a: "preprocessImage (preprocessImage d) = preprocessImage d"
    unfolding preprocessImage_def by (rule binarize_twice)
  have "\<not> above_140 0 0 0" and "above_140 255 255 255"
    by (simp_all add: above_140_def)
  then have b: "preprocessImage_full (preprocessImage_full d) = preprocessImage_full d"
    unfolding preprocessImage_full_def by (rule binarize_twice)
  have "\<not> avg_above_128 0 0 0" and "avg_above_128 255 255 255"
    by (simp_all add: avg_above_128_def)
  then have c: "threshold_loop (threshold_loop d) = threshold_loop d"
    unfolding threshold_loop_def by (rule binarize_twice)
  from a b c show ?thesis by (intro conjI)
qed

text \<open>
  C9.  The output of \<open>preprocessImage\<close> (either variant) has the length of the input,
  and for every pixel \<open>i\<close> of the input (bytes \<open>4i\<close> to \<open>4i + 3\<close>) the red, green and blue
  bytes of the output are equal, each is 0 or 255, and the alpha byte is the input's.
\<close>

theorem preprocessImage_channels:
  "length (preprocessImage d) = length d
   \<and> length (preprocessImage_full d) = length d
   \<and> (\<forall>i. 4 * i + 3 < length d \<longrightarrow>
         preprocessImage d ! (4 * i + 1) = preprocessImage d ! (4 * i)
         \<and> preprocessImage d ! (4 * i + 2) = preprocessImage d ! (4 * i)
         \<and> (preprocessImage d ! (4 * i) = 0 \<or> preprocessImage d ! (4 * i) = 255)
         \<and> preprocessImage d ! (4 * i + 3) = d ! (4 * i + 3))
   \<and> (\<forall>i. 4 * i + 3 < length d \<longrightarrow>
         preprocessImage_full d ! (4 * i + 1) = preprocessImage_full d ! (4 * i)
         \<and> preprocessImage_full d ! (4 * i + 2) = preprocessImage_full d ! (4 * i)
         \<and> (preprocessImage_full d ! (4 * i) = 0 \<or> preprocessImage_full d ! (4 * i) = 255)
         \<and> preprocessImage_full d ! (4 * i + 3) = d ! (4 * i + 3))"
  unfolding preprocessImage_def preprocessImage_full_def
  by (intro conjI allI impI length_binarize binarize_pixel)

theorem preprocessImage_channels_witness:
  "4 * 1 + 3 < length [200, 180, 90, 77, 10, 20, 250, 255 :: byte]
   \<and> preprocessImage [200, 180, 90, 77, 10, 20, 250, 255] = [255, 255, 255, 77, 0, 0, 0, 255]
   \<and> preprocessImage [200, 180, 90, 77, 10, 20, 250, 255] ! (4 * 1 + 1)
       = preprocessImage [200, 180, 90, 77, 10, 20, 250, 255] ! (4 * 1)
   \<and> preprocessImage [200, 180, 90, 77, 10, 20, 250, 255] ! (4 * 1 + 3) = 255"
proof -
  let ?d = "[200, 180, 90, 77, 10, 20, 250, 255 :: byte]"
  have h: "4 * 1 + 3 < length ?d" by simp
  have v: "preprocessImage ?d = [255, 255, 255, 77, 0, 0, 0, 255]"
    by (simp add: preprocessImage_def above_130_def)
  note P = preprocessImage_channels [of ?d, THEN conjunct2, THEN conjunct2, THEN conjunct1,
      rule_format, OF h]
  have a: "preprocessImage ?d ! (4 * 1 + 1) = preprocessImage ?d ! (4 * 1)"
    by (rule P [THEN conjunct1])
  have "preprocessImage ?d ! (4 * 1 + 3) = ?d ! (4 * 1 + 3)"
    by (rule P [THEN conjunct2, THEN conjunct2, THEN conjunct2])
  then have b: "preprocessImage ?d ! (4 * 1 + 3) = 255" by simp
  from h v a b show ?thesis by (intro conjI)
qed

section \<open>Name cleaning\<close>

lemma is_space_blank: "is_space 0x20"
  by (simp add: is_space_def)

lemma alpha_not_space: "is_alpha c \<Longrightarrow> \<not> is_space c"
  unfolding is_alpha_def is_space_def by (auto simp: word_le_nat_alt word_less_nat_alt dest!: arg_cong [of _ _ unat])

lemma last_dropWhile_eq: "dropWhile P xs \<noteq> [] \<Longrightarrow> last (dropWhile P xs) = last xs"
  by (induction xs) (auto split: if_splits)

lemma trim_ends:
  assumes "trim t \<noteq> []"
  shows "\<not> is_space (hd (trim t))" and "\<not> is_space (last (trim t))"
proof -
  let ?u = "dropWhile is_space t"
  let ?v = "dropWhile is_space (rev ?u)"
  from assms have v: "?v \<noteq> []" by (simp add: trim_def)
  then have u: "?u \<noteq> []" by (auto simp del: dropWhile_eq_Nil_conv)
  have "last (trim t) = hd ?v" using v by (simp add: trim_def last_rev)
  with v show "\<not> is_space (last (trim t))" by (simp add: hd_dropWhile)
  have "hd (trim t) = last ?v" using v by (simp add: trim_def hd_rev)
  also have "\<dots> = last (rev ?u)" using v by (rule last_dropWhile_eq)
  also have "\<dots> = hd ?u" using u by (simp add: last_rev)
  finally show "\<not> is_space (hd (trim t))" using u by (simp add: hd_dropWhile)
qed

lemma blank_letters_only:
  "list_all (\<lambda>c. is_alpha c \<or> is_space c) (blank_non_letters t)"
  by (induction t) (simp_all add: blank_non_letters_def is_space_blank)

lemma collapse_letters_only:
  "list_all P t \<Longrightarrow> P 0x20 \<Longrightarrow> list_all P (collapse_spaces t)"
proof (induction t rule: collapse_spaces.induct)
  case 1
  then show ?case by simp
next
  case (2 c cs)
  from "2.prems" have "list_all P (dropWhile is_space cs)"
    by (auto simp: list_all_iff dest: set_dropWhileD)
  with 2 show ?case by simp
qed

lemma collapse_Nil: "collapse_spaces t = [] \<longleftrightarrow> t = []"
  by (cases t) simp_all

lemma collapse_hd: "t \<noteq> [] \<Longrightarrow> is_space (hd (collapse_spaces t)) \<longleftrightarrow> is_space (hd t)"
  by (cases t) (simp_all add: is_space_blank)

lemma collapse_last: "t \<noteq> [] \<Longrightarrow> is_space (last (collapse_spaces t)) \<longleftrightarrow> is_space (last t)"
proof (induction t rule: collapse_spaces.induct)
  case 1
  then show ?case by simp
next
  case (2 c cs)
  show ?case
  proof (cases "is_space c")
    case True
    show ?thesis
    proof (cases "dropWhile is_space cs = []")
      case e: True
      then have "\<forall>x\<in>set cs. is_space x" by simp
      then have "is_space (last (c # cs))" using True by (cases "cs = []") simp_all
      with True show ?thesis by (simp add: is_space_blank e del: dropWhile_eq_Nil_conv)
    next
      case ne: False
      then have "cs \<noteq> []" by auto
      from "2.IH"(1) [OF True ne] ne True \<open>cs \<noteq> []\<close> show ?thesis
        by (simp add: collapse_Nil last_dropWhile_eq is_space_blank)
    qed
  next
    case False
    with "2.IH"(2) show ?thesis by (cases "cs = []") (simp_all add: collapse_Nil)
  qed
qed

lemma blank_hd:
  "t \<noteq> [] \<Longrightarrow> \<not> is_space (hd t) \<Longrightarrow>
   is_space (hd (blank_non_letters t)) \<longleftrightarrow> \<not> is_alpha (hd t)"
  by (cases t) (auto simp: blank_non_letters_def is_space_blank)

lemma blank_last:
  "t \<noteq> [] \<Longrightarrow> \<not> is_space (last t) \<Longrightarrow>
   is_space (last (blank_non_letters t)) \<longleftrightarrow> \<not> is_alpha (last t)"
  by (auto simp: blank_non_letters_def is_space_blank last_map)

lemma blank_Nil: "blank_non_letters t = [] \<longleftrightarrow> t = []"
  by (simp add: blank_non_letters_def)

lemma trim_decomp:
  "\<exists>l r. t = l @ trim t @ r \<and> list_all is_space l \<and> list_all is_space r"
proof -
  let ?l = "takeWhile is_space t"
  let ?u = "dropWhile is_space t"
  let ?r = "rev (takeWhile is_space (rev ?u))"
  have "rev (takeWhile is_space (rev ?u) @ dropWhile is_space (rev ?u)) = ?u" by simp
  then have "rev (dropWhile is_space (rev ?u)) @ ?r = ?u" by (simp only: rev_append)
  then have u: "?u = trim t @ ?r" by (simp only: trim_def)
  have "t = ?l @ ?u" by simp
  with u have "t = ?l @ trim t @ ?r" by simp
  moreover have "list_all is_space ?l"
    by (auto simp: list_all_iff dest: set_takeWhileD)
  moreover have "list_all is_space ?r"
    by (auto simp: list_all_iff dest: set_takeWhileD)
  ultimately show ?thesis by blast
qed

lemma dropWhile_id: "xs = [] \<or> \<not> P (hd xs) \<Longrightarrow> dropWhile P xs = xs"
  by (cases xs) auto

lemma collapsed_collapse: "collapsed x (collapse_spaces x)"
proof (induction x rule: collapse_spaces.induct)
  case 1
  show ?case by (simp add: collapsed_Nil)
next
  case (2 c cs)
  show ?case
  proof (cases "is_space c")
    case True
    let ?ws = "c # takeWhile is_space cs"
    let ?rest = "dropWhile is_space cs"
    have "?ws \<noteq> []" by simp
    moreover have "list_all is_space ?ws"
      using True by (auto simp: list_all_iff dest: set_takeWhileD)
    moreover have "?rest = [] \<or> \<not> is_space (hd ?rest)"
      by (cases "?rest = []") (simp_all add: hd_dropWhile del: dropWhile_eq_Nil_conv)
    moreover have "collapsed ?rest (collapse_spaces ?rest)"
      using "2.IH"(1) [OF True] .
    ultimately have "collapsed (?ws @ ?rest) (0x20 # collapse_spaces ?rest)"
      by (rule collapsed_run)
    with True show ?thesis by simp
  next
    case False
    with "2.IH"(2) have "collapsed (c # cs) (c # collapse_spaces cs)"
      by (simp add: collapsed_keep)
    with False show ?thesis by simp
  qed
qed

lemma collapsed_unique: "collapsed x r \<Longrightarrow> r = collapse_spaces x"
proof (induction rule: collapsed.induct)
  case collapsed_Nil
  show ?case by simp
next
  case (collapsed_keep c cs r)
  then show ?case by simp
next
  case (collapsed_run ws rest r)
  from collapsed_run(1) obtain w ws' where ws: "ws = w # ws'" by (cases ws) auto
  with collapsed_run(2) have w: "is_space w" and ws': "\<forall>x\<in>set ws'. is_space x"
    by (simp_all add: list_all_iff)
  from ws' have "dropWhile is_space (ws' @ rest) = dropWhile is_space rest"
    by (simp add: dropWhile_append2)
  also have "\<dots> = rest" using collapsed_run(3) by (rule dropWhile_id)
  finally show ?case using w ws collapsed_run.IH by simp
qed

text \<open>
  C3 (as amended).  The name cleaning of the two-zone scanner and of the single-zone
  scanner trims the recognized text first (white space is cut off at both ends, and
  what is left neither begins nor ends with white space) and then turns every code unit
  outside \<open>[A-Za-z\s]\<close> into a space, keeping the others where they are; the single-zone
  scanner then collapses every maximal run of white space into one space, and its output
  is the only string that is the two-zone output so collapsed.  So the output holds only
  Latin letters and white space, it is empty exactly when the trimmed text is, and it
  begins (ends) with white space exactly when the trimmed text begins (ends) with a
  code unit that is not a Latin letter.
\<close>

theorem cleanName_shape:
  "(\<exists>l r. t = l @ trim t @ r \<and> list_all is_space l \<and> list_all is_space r)
   \<and> (trim t \<noteq> [] \<longrightarrow> \<not> is_space (hd (trim t)) \<and> \<not> is_space (last (trim t)))
   \<and> cleanName t = map (\<lambda>c. if is_alpha c \<or> is_space c then c else 0x20) (trim t)
   \<and> collapsed (cleanName t) (cleanedText t)
   \<and> (\<forall>r. collapsed (cleanName t) r \<longrightarrow> r = cleanedText t)
   \<and> list_all (\<lambda>c. is_alpha c \<or> is_space c) (cleanName t)
   \<and> list_all (\<lambda>c. is_alpha c \<or> is_space c) (cleanedText t)
   \<and> length (cleanName t) = length (trim t)
   \<and> (cleanedText t = [] \<longleftrightarrow> trim t = [])
   \<and> (trim t \<noteq> [] \<longrightarrow>
        (is_space (hd (cleanName t)) \<longleftrightarrow> \<not> is_alpha (hd (trim t)))
        \<and> (is_space (last (cleanName t)) \<longleftrightarrow> \<not> is_alpha (last (trim t)))
        \<and> (is_space (hd (cleanedText t)) \<longleftrightarrow> \<not> is_alpha (hd (trim t)))
        \<and> (is_space (last (cleanedText t)) \<longleftrightarrow> \<not> is_alpha (last (trim t))))"
proof -
  have t1: "\<exists>l r. t = l @ trim t @ r \<and> list_all is_space l \<and> list_all is_space r"
    by (rule trim_decomp)
  have t2: "trim t \<noteq> [] \<longrightarrow> \<not> is_space (hd (trim t)) \<and> \<not> is_space (last (trim t))"
    using trim_ends [of t] by simp
  have m: "cleanName t = map (\<lambda>c. if is_alpha c \<or> is_space c then c else 0x20) (trim t)"
    by (simp add: cleanName_def blank_non_letters_def)
  have c1: "collapsed (cleanName t) (cleanedText t)"
    unfolding cleanName_def cleanedText_def by (rule collapsed_collapse)
  have c2: "\<forall>r. collapsed (cleanName t) r \<longrightarrow> r = cleanedText t"
    unfolding cleanName_def cleanedText_def using collapsed_unique by blast
  have a: "list_all (\<lambda>c. is_alpha c \<or> is_space c) (cleanName t)"
    unfolding cleanName_def by (rule blank_letters_only)
  have b: "list_all (\<lambda>c. is_alpha c \<or> is_space c) (cleanedText t)"
    unfolding cleanedText_def
    by (rule collapse_letters_only [OF blank_letters_only]) (simp add: is_space_blank)
  have c: "length (cleanName t) = length (trim t)"
    by (simp add: cleanName_def blank_non_letters_def)
  have d: "cleanedText t = [] \<longleftrightarrow> trim t = []"
    by (simp add: cleanedText_def collapse_Nil blank_Nil)
  have e: "(is_space (hd (cleanName t)) \<longleftrightarrow> \<not> is_alpha (hd (trim t)))
        \<and> (is_space (last (cleanName t)) \<longleftrightarrow> \<not> is_alpha (last (trim t)))
        \<and> (is_space (hd (cleanedText t)) \<longleftrightarrow> \<not> is_alpha (hd (trim t)))
        \<and> (is_space (last (cleanedText t)) \<longleftrightarrow> \<not> is_alpha (last (trim t)))"
    if ne: "trim t \<noteq> []"
  proof -
    note ends = trim_ends [OF ne]
    have ne': "blank_non_letters (trim t) \<noteq> []" using ne by (simp add: blank_Nil)
    have 1: "is_space (hd (cleanName t)) \<longleftrightarrow> \<not> is_alpha (hd (trim t))"
      unfolding cleanName_def by (rule blank_hd [OF ne ends(1)])
    have 2: "is_space (last (cleanName t)) \<longleftrightarrow> \<not> is_alpha (last (trim t))"
      unfolding cleanName_def by (rule blank_last [OF ne ends(2)])
    have 3: "is_space (hd (cleanedText t)) \<longleftrightarrow> \<not> is_alpha (hd (trim t))"
      unfolding cleanedText_def collapse_hd [OF ne'] by (rule blank_hd [OF ne ends(1)])
    have 4: "is_space (last (cleanedText t)) \<longleftrightarrow> \<not> is_alpha (last (trim t))"
      unfolding cleanedText_def collapse_last [OF ne'] by (rule blank_last [OF ne ends(2)])
    from 1 2 3 4 show ?thesis by (intro conjI)
  qed
  from t1 t2 m c1 c2 a b c d impI [OF e] show ?thesis by (intro conjI)
qed

theorem cleanName_shape_witness:
  "trim (js ''  Bolt 2 '') \<noteq> []
   \<and> \<not> is_space (hd (cleanName (js ''  Bolt 2 '')))
   \<and> is_space (last (cleanName (js ''  Bolt 2 '')))
   \<and> \<not> is_space (hd (cleanedText (js ''  Bolt 2 '')))
   \<and> is_space (last (cleanedText (js ''  Bolt 2 '')))"
proof -
  have t: "trim (js ''  Bolt 2 '') = js ''Bolt 2''"
    by (simp add: trim_def js_def is_space_def)
  have ne: "trim (js ''  Bolt 2 '') \<noteq> []"
    unfolding t by (simp add: js_def)
  have h: "is_alpha (hd (trim (js ''  Bolt 2 '')))"
    unfolding t by (simp add: js_def is_alpha_def)
  have l: "\<not> is_alpha (last (trim (js ''  Bolt 2 '')))"
    unfolding t by (simp add: js_def is_alpha_def)
  note S = cleanName_shape [of "js ''  Bolt 2 ''", THEN conjunct2, THEN conjunct2,
      THEN conjunct2, THEN conjunct2, THEN conjunct2, THEN conjunct2, THEN conjunct2,
      THEN conjunct2, THEN conjunct2, rule_format, OF ne]
  from S h l ne show ?thesis by simp
qed

theorem cleanName_whitespace_counterexample:
  "cleanName (js ''1Bolt!'') = js '' Bolt ''
   \<and> cleanedText (js ''1Bolt!'') = js '' Bolt ''
   \<and> is_space (hd (js '' Bolt '')) \<and> is_space (last (js '' Bolt ''))"
  by (simp add: cleanName_def cleanedText_def trim_def blank_non_letters_def js_def
      is_space_def is_alpha_def)

section \<open>The Name state\<close>

lemma fetchPTVersion_requests:
  "sent (fetchPTVersion sv c s)
     = sent s @ (if lang c = js ''pt'' then [] else [Search_pt (name c)])"
  by (simp add: fetchPTVersion_def Let_def split: checked.split option.split list.split)

lemma searchByName_unencodable:
  "\<not> encodable nm \<Longrightarrow> searchByName sv nm s = s\<lparr>error := Some Carta_nao_reconhecida\<rparr>"
  by (simp add: searchByName_def)

lemma searchByName_Threw:
  "encodable nm \<Longrightarrow> autocomplete sv nm = Threw \<Longrightarrow>
   searchByName sv nm s
     = s\<lparr>sent := sent s @ [Autocomplete nm], error := Some Carta_nao_reconhecida\<rparr>"
  by (simp add: searchByName_def)

lemma searchByName_bad_suggestion:
  "encodable nm \<Longrightarrow> autocomplete sv nm = Json (Some (first # others)) \<Longrightarrow> \<not> encodable first \<Longrightarrow>
   searchByName sv nm s
     = s\<lparr>sent := sent s @ [Autocomplete nm], error := Some Carta_nao_reconhecida\<rparr>"
  by (simp add: searchByName_def)

lemma searchByName_target:
  assumes "encodable nm" and "autocomplete sv nm = Json d"
    and "target = (case d of Some (first # _) \<Rightarrow> first | _ \<Rightarrow> nm)" and "encodable target"
  shows "sent (searchByName sv nm s)
     = sent s @ [Autocomplete nm, Named_fuzzy target]
       @ (case named_fuzzy sv target of
            Ok_json data \<Rightarrow> if lang data = js ''pt'' then [] else [Search_pt (name data)]
          | Status_error \<Rightarrow> []
          | Rejected \<Rightarrow> [])"
proof -
  let ?s2 = "s\<lparr>sent := sent s @ [Autocomplete nm, Named_fuzzy target]\<rparr>"
  show ?thesis
  proof (cases "named_fuzzy sv target")
    case (Ok_json data)
    with assms have "searchByName sv nm s = fetchPTVersion sv data ?s2"
      by (simp add: searchByName_def Let_def)
    with Ok_json show ?thesis by (simp add: fetchPTVersion_requests)
  next
    case Status_error
    with assms show ?thesis by (simp add: searchByName_def Let_def)
  next
    case Rejected
    with assms show ?thesis by (simp add: searchByName_def Let_def)
  qed
qed

lemma searchMultipleFuzzy_unencodable:
  "\<not> encodable line \<Longrightarrow>
   searchMultipleFuzzy sv (line # lines) s = searchMultipleFuzzy sv lines s"
  by simp

lemma searchMultipleFuzzy_skip:
  assumes "encodable line"
    and "autocomplete sv line = Threw \<or> autocomplete sv line = Json None
      \<or> autocomplete sv line = Json (Some [])
      \<or> (\<exists>first others. autocomplete sv line = Json (Some (first # others)) \<and> \<not> encodable first)"
  shows "searchMultipleFuzzy sv (line # lines) s
     = searchMultipleFuzzy sv lines (s\<lparr>sent := sent s @ [Autocomplete line]\<rparr>)"
  using assms by (elim disjE exE conjE) simp_all

lemma searchMultipleFuzzy_guess:
  assumes "encodable line" and "autocomplete sv line = Json (Some (guess # others))"
    and "encodable guess"
  shows "searchMultipleFuzzy sv (line # lines) s
     = (case named_fuzzy sv guess of
          Ok_json data \<Rightarrow>
            (True, fetchPTVersion_full sv data
                     (s\<lparr>sent := sent s @ [Autocomplete line, Named_fuzzy guess]\<rparr>))
        | Status_error \<Rightarrow>
            searchMultipleFuzzy sv lines
              (s\<lparr>sent := sent s @ [Autocomplete line, Named_fuzzy guess]\<rparr>)
        | Rejected \<Rightarrow>
            searchMultipleFuzzy sv lines
              (s\<lparr>sent := sent s @ [Autocomplete line, Named_fuzzy guess]\<rparr>))"
  using assms by (simp split: checked.split)

text \<open>
  C6 (as amended).  A candidate whose text can be encoded into the address is sent to
  the autocomplete as it is.  In \<open>searchByName\<close>: when the answer carries at least one
  suggestion, the fuzzy lookup is made with the first suggestion, and when it carries
  none (no \<open>data\<close> or an empty one) the fuzzy lookup is made with the candidate itself;
  these two requests are followed by the search for the Portuguese printing when the
  fuzzy lookup gives a card in another language, and by nothing otherwise.  In
  \<open>searchMultipleFuzzy\<close> of the full-frame scanner: with at least one suggestion the
  fuzzy lookup is made with the first suggestion, and its success ends the loop while
  its failure moves on to the next line; a line without suggestions is passed over
  without a fuzzy lookup and the next line is tried.  When the autocomplete call throws,
  or the first suggestion can not be encoded, no fuzzy lookup is made for the candidate;
  a candidate that can not be encoded causes no request at all.
\<close>

theorem name_state_queries:
  "(encodable nm \<longrightarrow>
      (\<forall>first others. autocomplete sv nm = Json (Some (first # others)) \<and> encodable first \<longrightarrow>
         sent (searchByName sv nm s)
           = sent s @ [Autocomplete nm, Named_fuzzy first]
             @ (case named_fuzzy sv first of
                  Ok_json data \<Rightarrow> if lang data = js ''pt'' then [] else [Search_pt (name data)]
                | Status_error \<Rightarrow> []
                | Rejected \<Rightarrow> [])
         \<and> searchMultipleFuzzy sv (nm # lines) s
           = (case named_fuzzy sv first of
                Ok_json data \<Rightarrow>
                  (True, fetchPTVersion_full sv data
                           (s\<lparr>sent := sent s @ [Autocomplete nm, Named_fuzzy first]\<rparr>))
              | Status_error \<Rightarrow>
                  searchMultipleFuzzy sv lines
                    (s\<lparr>sent := sent s @ [Autocomplete nm, Named_fuzzy first]\<rparr>)
              | Rejected \<Rightarrow>
                  searchMultipleFuzzy sv lines
                    (s\<lparr>sent := sent s @ [Autocomplete nm, Named_fuzzy first]\<rparr>)))
      \<and> (autocomplete sv nm = Json None \<or> autocomplete sv nm = Json (Some []) \<longrightarrow>
         sent (searchByName sv nm s)
           = sent s @ [Autocomplete nm, Named_fuzzy nm]
             @ (case named_fuzzy sv nm of
                  Ok_json data \<Rightarrow> if lang data = js ''pt'' then [] else [Search_pt (name data)]
                | Status_error \<Rightarrow> []
                | Rejected \<Rightarrow> [])
         \<and> searchMultipleFuzzy sv (nm # lines) s
           = searchMultipleFuzzy sv lines (s\<lparr>sent := sent s @ [Autocomplete nm]\<rparr>))
      \<and> (autocomplete sv nm = Threw
          \<or> (\<exists>first others. autocomplete sv nm = Json (Some (first # others))
                \<and> \<not> encodable first) \<longrightarrow>
         sent (searchByName sv nm s) = sent s @ [Autocomplete nm]
         \<and> searchMultipleFuzzy sv (nm # lines) s
           = searchMultipleFuzzy sv lines (s\<lparr>sent := sent s @ [Autocomplete nm]\<rparr>)))
   \<and> (\<not> encodable nm \<longrightarrow>
        sent (searchByName sv nm s) = sent s
        \<and> searchMultipleFuzzy sv (nm # lines) s = searchMultipleFuzzy sv lines s)"
proof (intro conjI allI impI; (elim conjE)?)
  fix first others
  assume enc: "encodable nm" and a: "autocomplete sv nm = Json (Some (first # others))"
    and f: "encodable first"
  show "sent (searchByName sv nm s)
           = sent s @ [Autocomplete nm, Named_fuzzy first]
             @ (case named_fuzzy sv first of
                  Ok_json data \<Rightarrow> if lang data = js ''pt'' then [] else [Search_pt (name data)]
                | Status_error \<Rightarrow> []
                | Rejected \<Rightarrow> [])"
    by (rule searchByName_target [OF enc a _ f]) simp
  show "searchMultipleFuzzy sv (nm # lines) s
           = (case named_fuzzy sv first of
                Ok_json data \<Rightarrow>
                  (True, fetchPTVersion_full sv data
                           (s\<lparr>sent := sent s @ [Autocomplete nm, Named_fuzzy first]\<rparr>))
              | Status_error \<Rightarrow>
                  searchMultipleFuzzy sv lines
                    (s\<lparr>sent := sent s @ [Autocomplete nm, Named_fuzzy first]\<rparr>)
              | Rejected \<Rightarrow>
                  searchMultipleFuzzy sv lines
                    (s\<lparr>sent := sent s @ [Autocomplete nm, Named_fuzzy first]\<rparr>))"
    by (rule searchMultipleFuzzy_guess [OF enc a f])
next
  assume enc: "encodable nm"
    and a: "autocomplete sv nm = Json None \<or> autocomplete sv nm = Json (Some [])"
  from a show "sent (searchByName sv nm s)
           = sent s @ [Autocomplete nm, Named_fuzzy nm]
             @ (case named_fuzzy sv nm of
                  Ok_json data \<Rightarrow> if lang data = js ''pt'' then [] else [Search_pt (name data)]
                | Status_error \<Rightarrow> []
                | Rejected \<Rightarrow> [])"
  proof
    assume n: "autocomplete sv nm = Json None"
    show ?thesis by (rule searchByName_target [OF enc n _ enc]) simp
  next
    assume n: "autocomplete sv nm = Json (Some [])"
    show ?thesis by (rule searchByName_target [OF enc n _ enc]) simp
  qed
  from a have "autocomplete sv nm = Threw \<or> autocomplete sv nm = Json None
      \<or> autocomplete sv nm = Json (Some [])
      \<or> (\<exists>first others. autocomplete sv nm = Json (Some (first # others)) \<and> \<not> encodable first)"
    by blast
  then show "searchMultipleFuzzy sv (nm # lines) s
           = searchMultipleFuzzy sv lines (s\<lparr>sent := sent s @ [Autocomplete nm]\<rparr>)"
    by (rule searchMultipleFuzzy_skip [OF enc])
next
  assume enc: "encodable nm"
    and a: "autocomplete sv nm = Threw
          \<or> (\<exists>first others. autocomplete sv nm = Json (Some (first # others))
                \<and> \<not> encodable first)"
  from a show "sent (searchByName sv nm s) = sent s @ [Autocomplete nm]"
  proof (elim disjE exE conjE)
    assume "autocomplete sv nm = Threw"
    then show ?thesis by (simp add: searchByName_Threw [OF enc])
  next
    fix first others
    assume "autocomplete sv nm = Json (Some (first # others))" "\<not> encodable first"
    then show ?thesis by (simp add: searchByName_bad_suggestion [OF enc])
  qed
  from a have "autocomplete sv nm = Threw \<or> autocomplete sv nm = Json None
      \<or> autocomplete sv nm = Json (Some [])
      \<or> (\<exists>first others. autocomplete sv nm = Json (Some (first # others)) \<and> \<not> encodable first)"
    by blast
  then show "searchMultipleFuzzy sv (nm # lines) s
           = searchMultipleFuzzy sv lines (s\<lparr>sent := sent s @ [Autocomplete nm]\<rparr>)"
    by (rule searchMultipleFuzzy_skip [OF enc])
next
  assume ne: "\<not> encodable nm"
  then show "sent (searchByName sv nm s) = sent s"
    by (simp add: searchByName_unencodable)
  from ne show "searchMultipleFuzzy sv (nm # lines) s = searchMultipleFuzzy sv lines s"
    by (rule searchMultipleFuzzy_unencodable)
qed

theorem name_state_queries_witness:
  "sent (searchByName online (js ''Lightning Bol'') idle)
      = [Autocomplete (js ''Lightning Bol''), Named_fuzzy (js ''Lightning Bolt''),
         Search_pt (js ''Lightning Bolt'')]
   \<and> sent (searchByName quiet (js ''Lightning Bolt'') idle)
      = [Autocomplete (js ''Lightning Bolt''), Named_fuzzy (js ''Lightning Bolt''),
         Search_pt (js ''Lightning Bolt'')]
   \<and> sent (searchByName offline (js ''Lightning Bolt'') idle)
      = [Autocomplete (js ''Lightning Bolt'')]
   \<and> searchMultipleFuzzy quiet [js ''Lightning Bolt''] idle
      = searchMultipleFuzzy quiet [] (idle\<lparr>sent := sent idle @ [Autocomplete (js ''Lightning Bolt'')]\<rparr>)
   \<and> sent (searchByName online [0xD800] idle) = sent idle"
proof -
  have e1: "encodable (js ''Lightning Bol'')"
    by (simp add: js_def high_surrogate_def low_surrogate_def)
  have e2: "encodable (js ''Lightning Bolt'')"
    by (simp add: js_def high_surrogate_def low_surrogate_def)
  have e3: "\<not> encodable [0xD800]"
    by (simp add: high_surrogate_def)
  have on: "autocomplete online (js ''Lightning Bol'') = Json (Some (js ''Lightning Bolt'' # []))
      \<and> encodable (js ''Lightning Bolt'')"
    using e2 by (simp add: online_def)
  have qu: "autocomplete quiet (js ''Lightning Bolt'') = Json None
      \<or> autocomplete quiet (js ''Lightning Bolt'') = Json (Some [])"
    by (simp add: quiet_def)
  have off: "autocomplete offline (js ''Lightning Bolt'') = Threw
      \<or> (\<exists>first others. autocomplete offline (js ''Lightning Bolt'') = Json (Some (first # others))
            \<and> \<not> encodable first)"
    by (simp add: offline_def)
  note A = name_state_queries [of "js ''Lightning Bol''" online idle "[]", THEN conjunct1,
      rule_format, OF e1, THEN conjunct1, rule_format, OF on, THEN conjunct1]
  note B = name_state_queries [of "js ''Lightning Bolt''" quiet idle "[]", THEN conjunct1,
      rule_format, OF e2, THEN conjunct2, THEN conjunct1, rule_format, OF qu]
  note C = name_state_queries [of "js ''Lightning Bolt''" offline idle "[]", THEN conjunct1,
      rule_format, OF e2, THEN conjunct2, THEN conjunct2, rule_format, OF off, THEN conjunct1]
  note D = name_state_queries [of "[0xD800]" online idle "[]", THEN conjunct2,
      rule_format, OF e3, THEN conjunct1]
  have a: "sent (searchByName online (js ''Lightning Bol'') idle)
      = [Autocomplete (js ''Lightning Bol''), Named_fuzzy (js ''Lightning Bolt''),
         Search_pt (js ''Lightning Bolt'')]"
    using A by (simp add: online_def idle_def bolt_en_def js_def)
  have b: "sent (searchByName quiet (js ''Lightning Bolt'') idle)
      = [Autocomplete (js ''Lightning Bolt''), Named_fuzzy (js ''Lightning Bolt''),
         Search_pt (js ''Lightning Bolt'')]"
    using B [THEN conjunct1] by (simp add: quiet_def idle_def bolt_en_def js_def)
  have c: "sent (searchByName offline (js ''Lightning Bolt'') idle)
      = [Autocomplete (js ''Lightning Bolt'')]"
    using C by (simp add: idle_def)
  from a b c B [THEN conjunct2] D show ?thesis by (intro conjI)
qed

theorem searchMultipleFuzzy_skips_counterexample:
  "searchMultipleFuzzy quiet [js ''Lightning Bolt''] idle
     = (False, idle\<lparr>sent := [Autocomplete (js ''Lightning Bolt'')]\<rparr>)
   \<and> named_fuzzy quiet (js ''Lightning Bolt'') = Ok_json bolt_en"
proof -
  have e: "encodable (js ''Lightning Bolt'')"
    by (simp add: js_def high_surrogate_def low_surrogate_def)
  then show ?thesis by (simp add: quiet_def idle_def)
qed

section \<open>The Set+Number state\<close>

text \<open>
  C1.  The two-zone scanner at a scan whose collector-info zone reads "MID 999" and whose
  name zone reads "Lightning Bol", with a catalog that has no card under (mid, 999) but
  resolves the name: the only request is the exact lookup, the result stays empty and
  the message "... Refazendo por nome..." is shown, although the name search on the
  cleaned name would have produced the Portuguese printing.
\<close>

theorem captureAndScan_no_fallback:
  "result (captureAndScan online (js ''Lightning Bol'') (js ''MID 999'') idle) = None
   \<and> error (captureAndScan online (js ''Lightning Bol'') (js ''MID 999'') idle)
       = Some Colecao_nao_encontrada
   \<and> sent (captureAndScan online (js ''Lightning Bol'') (js ''MID 999'') idle)
       = [Card_by_set (js ''mid'') (js ''999'')]
   \<and> result (searchByName online (cleanName (js ''Lightning Bol'')) idle) = Some bolt_pt"
  by code_simp

section \<open>Collector-info extraction\<close>

lemma digit_not_space: "is_digit c \<Longrightarrow> \<not> is_space c"
  unfolding is_digit_def is_space_def
  by (auto simp: word_le_nat_alt word_less_nat_alt dest!: arg_cong [of _ _ unat])

lemma first_match_None:
  "first_match m t = None \<Longrightarrow> t = pre @ rest \<Longrightarrow> m rest = None"
proof (induction t arbitrary: pre)
  case Nil
  then show ?case by simp
next
  case (Cons c cs)
  from Cons.prems(1) have here: "m (c # cs) = None" and later: "first_match m cs = None"
    by (simp_all split: option.splits)
  show ?case
  proof (cases pre)
    case Nil
    with Cons.prems(2) here show ?thesis by simp
  next
    case (Cons p ps)
    with Cons.prems(2) have "cs = ps @ rest" by simp
    from Cons.IH [OF later this] show ?thesis .
  qed
qed

lemma first_match_Some:
  "first_match m t = Some r \<Longrightarrow>
   \<exists>pre rest. t = pre @ rest \<and> m rest = Some r
     \<and> (\<forall>pre' rest'. t = pre' @ rest' \<and> length pre' < length pre \<longrightarrow> m rest' = None)"
proof (induction t)
  case Nil
  then have "[] = [] @ [] \<and> m [] = Some r" by simp
  then show ?case by fastforce
next
  case (Cons c cs)
  show ?case
  proof (cases "m (c # cs)")
    case (Some r')
    with Cons.prems have "c # cs = [] @ (c # cs) \<and> m (c # cs) = Some r" by simp
    then show ?thesis by fastforce
  next
    case None
    with Cons.prems have "first_match m cs = Some r" by simp
    from Cons.IH [OF this] obtain pre rest where
      cs: "cs = pre @ rest" and r: "m rest = Some r"
      and first: "\<forall>pre' rest'. cs = pre' @ rest' \<and> length pre' < length pre \<longrightarrow> m rest' = None"
      by blast
    have "m rest' = None" if "c # cs = pre' @ rest'" and "length pre' < length (c # pre)"
      for pre' rest'
    proof (cases pre')
      case Nil
      with that(1) None show ?thesis by simp
    next
      case (Cons p ps)
      with that have "cs = ps @ rest'" and "length ps < length pre" by simp_all
      with first show ?thesis by blast
    qed
    moreover have "c # cs = (c # pre) @ rest" using cs by simp
    ultimately show ?thesis using r by blast
  qed
qed

lemma digits_after_append:
  assumes "list_all is_space w" and "d \<noteq> []" and "list_all is_digit d"
  shows "digits_after (w @ d @ post) = d @ takeWhile is_digit post"
proof -
  from assms(2,3) have "\<not> is_space (hd d)"
    by (cases d) (simp_all add: digit_not_space)
  with assms(1,2) have "dropWhile is_space (w @ d @ post) = d @ post"
    by (cases d) (simp_all add: list_all_iff dropWhile_append2)
  moreover have "takeWhile is_digit (d @ post) = d @ takeWhile is_digit post"
    using assms(3) by (simp add: list_all_iff takeWhile_append2)
  ultimately show ?thesis by (simp add: digits_after_def)
qed

lemma digits_after_split:
  "\<exists>w post. rest = w @ digits_after rest @ post \<and> list_all is_space w
     \<and> list_all is_digit (digits_after rest) \<and> (post = [] \<or> \<not> is_digit (hd post))"
proof -
  let ?w = "takeWhile is_space rest"
  let ?r = "dropWhile is_space rest"
  let ?post = "dropWhile is_digit ?r"
  have "rest = ?w @ digits_after rest @ ?post"
    by (simp add: digits_after_def)
  moreover have "list_all is_space ?w"
    by (auto simp: list_all_iff dest: set_takeWhileD)
  moreover have "list_all is_digit (digits_after rest)"
    by (auto simp: digits_after_def list_all_iff dest: set_takeWhileD)
  moreover have "?post = [] \<or> \<not> is_digit (hd ?post)"
    by (cases "?post = []") (simp_all add: hd_dropWhile del: dropWhile_eq_Nil_conv)
  ultimately show ?thesis by blast
qed

lemma info_at_Some:
  assumes "info_at t = Some (g, d)"
  shows "\<exists>w post. t = g @ w @ d @ post \<and> three_letters g \<and> list_all is_space w
     \<and> d \<noteq> [] \<and> list_all is_digit d \<and> (post = [] \<or> \<not> is_digit (hd post))"
proof -
  from assms have g: "g = take 3 t" and d: "d = digits_after (drop 3 t)"
    and 3: "three_letters g" and ne: "d \<noteq> []"
    by (auto simp: info_at_def three_letters_def split: if_splits)
  from digits_after_split [of "drop 3 t"] obtain w post where
    "drop 3 t = w @ d @ post" "list_all is_space w" "list_all is_digit d"
    "post = [] \<or> \<not> is_digit (hd post)"
    unfolding d by blast
  moreover from this(1) have "t = g @ w @ d @ post"
    unfolding g by (metis append_take_drop_id)
  ultimately show ?thesis using 3 ne by blast
qed

lemma info_at_complete:
  assumes "three_letters g" and "list_all is_space w" and "d \<noteq> []" and "list_all is_digit d"
  shows "info_at (g @ w @ d @ post) = Some (g, d @ takeWhile is_digit post)"
  using assms digits_after_append [OF assms(2-4), of post]
  by (simp add: info_at_def three_letters_def)

lemma backtrack_None:
  "backtrack k t = None \<Longrightarrow> 3 \<le> j \<Longrightarrow> j \<le> k \<Longrightarrow> digits_after (drop j t) = []"
proof (induction k)
  case 0
  then show ?case by simp
next
  case (Suc k)
  show ?case
  proof (cases "j = Suc k")
    case True
    with Suc.prems show ?thesis by (simp split: if_splits)
  next
    case False
    with Suc.prems have "j \<le> k" and "backtrack k t = None"
      by (simp_all split: if_splits)
    with Suc.IH Suc.prems(2) show ?thesis by simp
  qed
qed

lemma backtrack_Some:
  "backtrack k t = Some (g, d) \<Longrightarrow>
   \<exists>j. 3 \<le> j \<and> j \<le> k \<and> g = take j t \<and> d = digits_after (drop j t) \<and> d \<noteq> []
     \<and> (\<forall>i. j < i \<and> i \<le> k \<longrightarrow> digits_after (drop i t) = [])"
proof (induction k)
  case 0
  then show ?case by simp
next
  case (Suc k)
  show ?case
  proof (cases "digits_after (drop (Suc k) t) \<noteq> []")
    case True
    with Suc.prems have "3 \<le> Suc k \<and> g = take (Suc k) t \<and> d = digits_after (drop (Suc k) t)"
      by (simp split: if_splits)
    with True show ?thesis by fastforce
  next
    case False
    with Suc.prems have "backtrack k t = Some (g, d)" by (simp split: if_splits)
    from Suc.IH [OF this] obtain j where j: "3 \<le> j" "j \<le> k" "g = take j t"
      "d = digits_after (drop j t)" "d \<noteq> []"
      "\<forall>i. j < i \<and> i \<le> k \<longrightarrow> digits_after (drop i t) = []" by blast
    have "\<forall>i. j < i \<and> i \<le> Suc k \<longrightarrow> digits_after (drop i t) = []"
      using j(6) False by (auto simp: le_Suc_eq)
    with j(1-5) show ?thesis by (intro exI [of _ j]) simp
  qed
qed

lemma prefix_run: "list_all P g \<Longrightarrow> length g \<le> length (takeWhile P (g @ r))"
  by (simp add: list_all_iff takeWhile_append2)

lemma take_run: "j \<le> length (takeWhile P t) \<Longrightarrow> list_all P (take j t) \<and> length (take j t) = j"
proof -
  assume j: "j \<le> length (takeWhile P t)"
  have "take j (takeWhile P t @ dropWhile P t) = take j (takeWhile P t)"
    using j by (simp del: takeWhile_dropWhile_id)
  then have eq: "take j t = take j (takeWhile P t)" by simp
  have "list_all P (take j (takeWhile P t))"
    by (auto simp: list_all_iff dest: in_set_takeD set_takeWhileD)
  with eq j show ?thesis by simp
qed

lemma codes_at_Some:
  assumes "codes_at t = Some (g, d)"
  shows "\<exists>w post. t = g @ w @ d @ post \<and> three_or_more_alnum g \<and> list_all is_space w
     \<and> d \<noteq> [] \<and> list_all is_digit d \<and> (post = [] \<or> \<not> is_digit (hd post))
     \<and> (\<forall>g' w' d' post'. t = g' @ w' @ d' @ post' \<and> three_or_more_alnum g'
          \<and> list_all is_space w' \<and> d' \<noteq> [] \<and> list_all is_digit d' \<longrightarrow> length g' \<le> length g)"
proof -
  let ?n = "length (takeWhile is_alnum t)"
  from backtrack_Some [OF assms [unfolded codes_at_def]] obtain j where
    j: "3 \<le> j" "j \<le> ?n" "g = take j t" "d = digits_after (drop j t)" "d \<noteq> []"
    and top: "\<forall>i. j < i \<and> i \<le> ?n \<longrightarrow> digits_after (drop i t) = []" by blast
  from take_run [OF j(2)] j(3) have g: "list_all is_alnum g" "length g = j" by simp_all
  from digits_after_split [of "drop j t"] obtain w post where
    split: "drop j t = w @ d @ post" "list_all is_space w" "list_all is_digit d"
    "post = [] \<or> \<not> is_digit (hd post)"
    unfolding j(4) by blast
  from split(1) have t: "t = g @ w @ d @ post"
    unfolding j(3) by (metis append_take_drop_id)
  have "length g' \<le> length g"
    if "t = g' @ w' @ d' @ post'" "three_or_more_alnum g'" "list_all is_space w'"
      "d' \<noteq> []" "list_all is_digit d'" for g' w' d' post'
  proof (rule ccontr)
    assume "\<not> length g' \<le> length g"
    then have "j < length g'" using g(2) by simp
    moreover have "length g' \<le> ?n"
      using that(2) prefix_run [of is_alnum g' "w' @ d' @ post'"]
      by (simp add: three_or_more_alnum_def that(1))
    ultimately have "digits_after (drop (length g') t) = []" using top by blast
    moreover have "digits_after (drop (length g') t) = d' @ takeWhile is_digit post'"
      using digits_after_append [OF that(3-5)] by (simp add: that(1))
    ultimately show False using that(4) by simp
  qed
  with t split(2-4) j(1,5) g show ?thesis
    unfolding three_or_more_alnum_def by blast
qed

lemma codes_at_complete:
  assumes "three_or_more_alnum g" and "list_all is_space w" and "d \<noteq> []" and "list_all is_digit d"
  shows "codes_at (g @ w @ d @ post) \<noteq> None"
proof
  let ?t = "g @ w @ d @ post"
  assume "codes_at ?t = None"
  then have "backtrack (length (takeWhile is_alnum ?t)) ?t = None"
    by (simp add: codes_at_def)
  moreover have "3 \<le> length g" and "length g \<le> length (takeWhile is_alnum ?t)"
    using assms(1) prefix_run [of is_alnum g "w @ d @ post"]
    by (simp_all add: three_or_more_alnum_def)
  ultimately have "digits_after (drop (length g) ?t) = []"
    by (rule backtrack_None)
  with digits_after_append [OF assms(2-4), of post] assms(3) show False by simp
qed

lemma no_match_iff:
  assumes sound: "\<And>r g d. m r = Some (g, d) \<Longrightarrow>
      \<exists>w post. r = g @ w @ d @ post \<and> G g \<and> list_all is_space w \<and> d \<noteq> [] \<and> list_all is_digit d"
    and complete: "\<And>g w d post. G g \<Longrightarrow> list_all is_space w \<Longrightarrow> d \<noteq> [] \<Longrightarrow>
      list_all is_digit d \<Longrightarrow> m (g @ w @ d @ post) \<noteq> None"
  shows "first_match m t = None \<longleftrightarrow> (\<forall>pre g w d post. \<not> occurrence G t pre g w d post)"
proof
  assume none: "first_match m t = None"
  show "\<forall>pre g w d post. \<not> occurrence G t pre g w d post"
  proof (intro allI notI)
    fix pre g w d post assume "occurrence G t pre g w d post"
    then have t: "t = pre @ (g @ w @ d @ post)" and ok: "G g" "list_all is_space w" "d \<noteq> []"
      "list_all is_digit d" by (simp_all add: occurrence_def)
    from first_match_None [OF none t] complete [OF ok, of post] show False by simp
  qed
next
  assume no: "\<forall>pre g w d post. \<not> occurrence G t pre g w d post"
  show "first_match m t = None"
  proof (cases "first_match m t")
    case None
    then show ?thesis .
  next
    case (Some r)
    obtain g d where r: "r = (g, d)" by (cases r)
    from first_match_Some [OF Some] obtain pre rest where "t = pre @ rest" "m rest = Some (g, d)"
      unfolding r by blast
    with sound [of rest g d] have "\<exists>w post. occurrence G t pre g w d post"
      by (auto simp: occurrence_def)
    with no show ?thesis by blast
  qed
qed

lemma match_leftmost:
  assumes complete: "\<And>g w d post. G g \<Longrightarrow> list_all is_space w \<Longrightarrow> d \<noteq> [] \<Longrightarrow>
      list_all is_digit d \<Longrightarrow> m (g @ w @ d @ post) \<noteq> None"
    and found: "first_match m t = Some r"
  shows "\<exists>pre rest. t = pre @ rest \<and> m rest = Some r
     \<and> (\<forall>pre' g' w' d' post'. occurrence G t pre' g' w' d' post' \<longrightarrow> length pre \<le> length pre')"
proof -
  from first_match_Some [OF found] obtain pre rest where t: "t = pre @ rest" and r: "m rest = Some r"
    and first: "\<forall>pre' rest'. t = pre' @ rest' \<and> length pre' < length pre \<longrightarrow> m rest' = None"
    by blast
  have "length pre \<le> length pre'" if "occurrence G t pre' g' w' d' post'" for pre' g' w' d' post'
  proof (rule ccontr)
    assume "\<not> length pre \<le> length pre'"
    then have shorter: "length pre' < length pre" by simp
    from that have t': "t = pre' @ (g' @ w' @ d' @ post')"
      and ok: "G g'" "list_all is_space w'" "d' \<noteq> []" "list_all is_digit d'"
      by (simp_all add: occurrence_def)
    from first t' shorter have "m (g' @ w' @ d' @ post') = None" by blast
    with complete [OF ok, of post'] show False by simp
  qed
  with t r show ?thesis by blast
qed

lemma infoMatch_None_iff:
  "infoMatch t = None \<longleftrightarrow> (\<forall>pre g w d post. \<not> occurrence three_letters t pre g w d post)"
  unfolding infoMatch_def
proof (rule no_match_iff)
  fix r g d assume "info_at r = Some (g, d)"
  from info_at_Some [OF this]
  show "\<exists>w post. r = g @ w @ d @ post \<and> three_letters g \<and> list_all is_space w \<and> d \<noteq> []
      \<and> list_all is_digit d" by blast
next
  fix g w d post
  assume "three_letters g" "list_all is_space w" "d \<noteq> []" "list_all is_digit d"
  then show "info_at (g @ w @ d @ post) \<noteq> None" by (simp add: info_at_complete)
qed

lemma infoMatch_Some:
  assumes "infoMatch t = Some (g, d)"
  shows "\<exists>pre w post. occurrence three_letters t pre g w d post
     \<and> (post = [] \<or> \<not> is_digit (hd post))
     \<and> (\<forall>pre' g' w' d' post'. occurrence three_letters t pre' g' w' d' post' \<longrightarrow>
           length pre \<le> length pre')"
proof -
  have "\<exists>pre rest. t = pre @ rest \<and> info_at rest = Some (g, d)
     \<and> (\<forall>pre' g' w' d' post'. occurrence three_letters t pre' g' w' d' post' \<longrightarrow>
           length pre \<le> length pre')"
  proof (rule match_leftmost)
    fix g w d post
    assume "three_letters g" "list_all is_space w" "d \<noteq> []" "list_all is_digit d"
    then show "info_at (g @ w @ d @ post) \<noteq> None" by (simp add: info_at_complete)
  next
    show "first_match info_at t = Some (g, d)" using assms by (simp add: infoMatch_def)
  qed
  then obtain pre rest where t: "t = pre @ rest" and r: "info_at rest = Some (g, d)"
    and left: "\<forall>pre' g' w' d' post'. occurrence three_letters t pre' g' w' d' post' \<longrightarrow>
           length pre \<le> length pre'" by blast
  from info_at_Some [OF r] obtain w post where
    "rest = g @ w @ d @ post" "three_letters g" "list_all is_space w" "d \<noteq> []"
    "list_all is_digit d" "post = [] \<or> \<not> is_digit (hd post)" by blast
  with t have "occurrence three_letters t pre g w d post \<and> (post = [] \<or> \<not> is_digit (hd post))"
    by (simp add: occurrence_def)
  with left show ?thesis by blast
qed

lemma codes_None_iff:
  "codes t = None \<longleftrightarrow> (\<forall>pre g w d post. \<not> occurrence three_or_more_alnum t pre g w d post)"
  unfolding codes_def
proof (rule no_match_iff)
  fix r g d assume "codes_at r = Some (g, d)"
  from codes_at_Some [OF this]
  show "\<exists>w post. r = g @ w @ d @ post \<and> three_or_more_alnum g \<and> list_all is_space w \<and> d \<noteq> []
      \<and> list_all is_digit d" by blast
next
  fix g w d post
  assume "three_or_more_alnum g" "list_all is_space w" "d \<noteq> []" "list_all is_digit d"
  then show "codes_at (g @ w @ d @ post) \<noteq> None" by (rule codes_at_complete)
qed

lemma codes_Some:
  assumes "codes t = Some (g, d)"
  shows "\<exists>pre w post. occurrence three_or_more_alnum t pre g w d post
     \<and> (post = [] \<or> \<not> is_digit (hd post))
     \<and> (\<forall>pre' g' w' d' post'. occurrence three_or_more_alnum t pre' g' w' d' post' \<longrightarrow>
           length pre < length pre' \<or> (length pre = length pre' \<and> length g' \<le> length g))"
proof -
  have "\<exists>pre rest. t = pre @ rest \<and> codes_at rest = Some (g, d)
     \<and> (\<forall>pre' g' w' d' post'. occurrence three_or_more_alnum t pre' g' w' d' post' \<longrightarrow>
           length pre \<le> length pre')"
  proof (rule match_leftmost)
    fix g w d post
    assume "three_or_more_alnum g" "list_all is_space w" "d \<noteq> []" "list_all is_digit d"
    then show "codes_at (g @ w @ d @ post) \<noteq> None" by (rule codes_at_complete)
  next
    show "first_match codes_at t = Some (g, d)" using assms by (simp add: codes_def)
  qed
  then obtain pre rest where t: "t = pre @ rest" and r: "codes_at rest = Some (g, d)"
    and left: "\<forall>pre' g' w' d' post'. occurrence three_or_more_alnum t pre' g' w' d' post' \<longrightarrow>
           length pre \<le> length pre'" by blast
  from codes_at_Some [OF r] obtain w post where
    rest: "rest = g @ w @ d @ post" and ok: "three_or_more_alnum g" "list_all is_space w" "d \<noteq> []"
    "list_all is_digit d" "post = [] \<or> \<not> is_digit (hd post)"
    and longest: "\<forall>g' w' d' post'. rest = g' @ w' @ d' @ post' \<and> three_or_more_alnum g'
          \<and> list_all is_space w' \<and> d' \<noteq> [] \<and> list_all is_digit d' \<longrightarrow> length g' \<le> length g"
    by blast
  have occ: "occurrence three_or_more_alnum t pre g w d post"
    using t rest ok by (simp add: occurrence_def)
  have "length pre < length pre' \<or> (length pre = length pre' \<and> length g' \<le> length g)"
    if o: "occurrence three_or_more_alnum t pre' g' w' d' post'" for pre' g' w' d' post'
  proof (cases "length pre = length pre'")
    case True
    from o have t': "t = pre' @ g' @ w' @ d' @ post'" and ok': "three_or_more_alnum g'"
      "list_all is_space w'" "d' \<noteq> []" "list_all is_digit d'"
      by (simp_all add: occurrence_def)
    from t t' True have "rest = g' @ w' @ d' @ post'" by simp
    with longest ok' have "length g' \<le> length g" by blast
    with True show ?thesis by simp
  next
    case False
    with left o have "length pre < length pre'" by (meson le_neq_implies_less)
    then show ?thesis by simp
  qed
  with occ ok(5) show ?thesis by blast
qed

lemma toUpperCase_letters:
  "list_all is_alpha g \<Longrightarrow> list_all (\<lambda>c. 0x41 \<le> c \<and> c \<le> 0x5A) (toUpperCase g)"
proof (induction g)
  case Nil
  then show ?case by (simp add: toUpperCase_def)
next
  case (Cons c g)
  then have c: "is_alpha c" and IH: "list_all (\<lambda>c. 0x41 \<le> c \<and> c \<le> 0x5A) (toUpperCase g)"
    by simp_all
  have "0x41 \<le> c - 0x20 \<and> c - 0x20 \<le> 0x5A" if "0x61 \<le> c" "c \<le> 0x7A"
    using that by unat_arith
  moreover have "0x41 \<le> c \<and> c \<le> 0x5A" if "\<not> (0x61 \<le> c \<and> c \<le> 0x7A)"
    using that c by (auto simp: is_alpha_def)
  ultimately show ?case using IH by (auto simp: toUpperCase_def)
qed

lemma toUpperCase_same_letters: "toLowerCase (toUpperCase g) = toLowerCase g"
proof (induction g)
  case Nil
  show ?case by (simp add: toUpperCase_def toLowerCase_def)
next
  case (Cons c g)
  then have IH: "map (\<lambda>c. if 0x41 \<le> c \<and> c \<le> 0x5A then c + 0x20 else c)
      (map (\<lambda>c. if 0x61 \<le> c \<and> c \<le> 0x7A then c - 0x20 else c) g)
    = map (\<lambda>c. if 0x41 \<le> c \<and> c \<le> 0x5A then c + 0x20 else c) g"
    by (simp add: toUpperCase_def toLowerCase_def)
  have up: "0x41 \<le> c - 0x20 \<and> c - 0x20 \<le> 0x5A" if "0x61 \<le> c" "c \<le> 0x7A"
    using that by unat_arith
  have low: "\<not> (0x41 \<le> c \<and> c \<le> 0x5A)" if "0x61 \<le> c" "c \<le> 0x7A"
    using that by unat_arith
  show ?case
    using IH up low by (simp add: toUpperCase_def toLowerCase_def)
qed

lemma captureAndScan_found:
  assumes "infoMatch infoText = Some (g, d)"
  shows "captureAndScan sv nameText infoText s =
    (searchByInfo sv (toUpperCase g) d
       (s\<lparr>loading := True, error := None,
          debugText := debug_line (cleanName nameText) (Some (toUpperCase g)) (Some d)\<rparr>))
      \<lparr>loading := False\<rparr>"
proof -
  from infoMatch_Some [OF assms] have "length g = 3" and "d \<noteq> []"
    by (auto simp: occurrence_def three_letters_def)
  then have "toUpperCase g \<noteq> []" by (auto simp: toUpperCase_def)
  with \<open>d \<noteq> []\<close> assms show ?thesis
    by (simp add: captureAndScan_def truthy_def or_else_def)
qed

lemma captureAndScan_not_found:
  assumes "infoMatch infoText = None"
  shows "captureAndScan sv nameText infoText s =
    (if 3 < length (cleanName nameText)
     then searchByName sv (cleanName nameText)
       (s\<lparr>loading := True, error := None,
          debugText := debug_line (cleanName nameText) None None\<rparr>)
     else s\<lparr>loading := True, error := Some Nao_identificada,
          debugText := debug_line (cleanName nameText) None None\<rparr>)
      \<lparr>loading := False\<rparr>"
  using assms by (simp add: captureAndScan_def truthy_def Let_def)

lemma processPhoto_found:
  "codes infoText = Some (g, d) \<Longrightarrow>
   processPhoto sv titleText infoText s
     = (searchBySet_photo sv g d s)\<lparr>loading := False, debugText := []\<rparr>"
  by (simp add: processPhoto_def)

lemma processPhoto_not_found:
  "codes infoText = None \<Longrightarrow>
   processPhoto sv titleText infoText s
     = (if 2 < length (cleanTitle titleText)
        then searchByName_photo sv (cleanTitle titleText) s
        else s\<lparr>error := Some Nao_li_o_nome\<rparr>)
       \<lparr>loading := False, debugText := []\<rparr>"
  by (simp add: processPhoto_def)

lemma captureAndScan_dual_found:
  "codes text = Some (g, d) \<Longrightarrow>
   captureAndScan_dual sv titleText text s
     = (searchByInfo_dual sv g d
          (s\<lparr>loading := True, error := None,
             debugText := js ''ID Encontrado: '' @ g @ js ''/'' @ d\<rparr>))
       \<lparr>loading := False, debugText := []\<rparr>"
  by (simp add: captureAndScan_dual_def)

lemma captureAndScan_dual_not_found:
  "codes text = None \<Longrightarrow>
   captureAndScan_dual sv titleText text s
     = (if 3 < length (cleanTitle titleText)
        then searchByName_dual sv (cleanTitle titleText)
          (s\<lparr>loading := True, error := None,
             debugText := js ''Buscando Nome: '' @ take 10 (cleanTitle titleText) @ js ''...''\<rparr>)
        else s\<lparr>loading := True, error := Some Nao_li_a_carta\<rparr>)
       \<lparr>loading := False, debugText := []\<rparr>"
  by (simp add: captureAndScan_dual_def)

text \<open>
  C4 (as amended).  Collector-info extraction returns the groups of the first match of
  its pattern in the recognized text, and nothing exactly when the text has no match.

  In the two-zone scanner the pattern is exactly three Latin letters, optional white
  space, one or more digits: the match is the leftmost one, its digit group is not
  followed by a further digit, and the letter group is upper-cased (the same letters, in
  capitals) before it is used as the set code of the exact lookup.  Without a match \<open>captureAndScan\<close> goes on to the
  name search when the cleaned name is longer than three code units, and sets its
  "could not identify" message otherwise.

  In the photo scanner and the dual-pass scanner the pattern is three or more letters or
  digits, optional white space, one or more digits: the match is the leftmost one, with
  the longest first group that leaves a match, and the groups are handed to the exact
  lookup as they stand in the text.  Without a match \<open>processPhoto\<close> goes on to the name
  search when the cleaned title is longer than two code units, \<open>captureAndScan\<close> of the
  dual-pass scanner when it is longer than three, and each sets its "could not read"
  message otherwise.
\<close>

theorem collector_info_extraction:
  "(infoMatch t = None \<longleftrightarrow> (\<forall>pre g w d post. \<not> occurrence three_letters t pre g w d post))
   \<and> (\<forall>g d. infoMatch t = Some (g, d) \<longrightarrow>
        (\<exists>pre w post. occurrence three_letters t pre g w d post
           \<and> (post = [] \<or> \<not> is_digit (hd post))
           \<and> (\<forall>pre' g' w' d' post'. occurrence three_letters t pre' g' w' d' post' \<longrightarrow>
                 length pre \<le> length pre'))
        \<and> list_all (\<lambda>c. 0x41 \<le> c \<and> c \<le> 0x5A) (toUpperCase g)
        \<and> toLowerCase (toUpperCase g) = toLowerCase g
        \<and> captureAndScan sv nameText t s =
            (searchByInfo sv (toUpperCase g) d
               (s\<lparr>loading := True, error := None,
                  debugText := debug_line (cleanName nameText) (Some (toUpperCase g)) (Some d)\<rparr>))
              \<lparr>loading := False\<rparr>)
   \<and> (infoMatch t = None \<longrightarrow>
        captureAndScan sv nameText t s =
          (if 3 < length (cleanName nameText)
           then searchByName sv (cleanName nameText)
             (s\<lparr>loading := True, error := None,
                debugText := debug_line (cleanName nameText) None None\<rparr>)
           else s\<lparr>loading := True, error := Some Nao_identificada,
                debugText := debug_line (cleanName nameText) None None\<rparr>)
            \<lparr>loading := False\<rparr>)
   \<and> (codes t = None \<longleftrightarrow> (\<forall>pre g w d post. \<not> occurrence three_or_more_alnum t pre g w d post))
   \<and> (\<forall>g d. codes t = Some (g, d) \<longrightarrow>
        (\<exists>pre w post. occurrence three_or_more_alnum t pre g w d post
           \<and> (post = [] \<or> \<not> is_digit (hd post))
           \<and> (\<forall>pre' g' w' d' post'. occurrence three_or_more_alnum t pre' g' w' d' post' \<longrightarrow>
                 length pre < length pre' \<or> (length pre = length pre' \<and> length g' \<le> length g)))
        \<and> processPhoto sv nameText t s
            = (searchBySet_photo sv g d s)\<lparr>loading := False, debugText := []\<rparr>
        \<and> captureAndScan_dual sv nameText t s
            = (searchByInfo_dual sv g d
                 (s\<lparr>loading := True, error := None,
                    debugText := js ''ID Encontrado: '' @ g @ js ''/'' @ d\<rparr>))
              \<lparr>loading := False, debugText := []\<rparr>)
   \<and> (codes t = None \<longrightarrow>
        processPhoto sv nameText t s
          = (if 2 < length (cleanTitle nameText)
             then searchByName_photo sv (cleanTitle nameText) s
             else s\<lparr>error := Some Nao_li_o_nome\<rparr>)
            \<lparr>loading := False, debugText := []\<rparr>
        \<and> captureAndScan_dual sv nameText t s
          = (if 3 < length (cleanTitle nameText)
             then searchByName_dual sv (cleanTitle nameText)
               (s\<lparr>loading := True, error := None,
                  debugText := js ''Buscando Nome: '' @ take 10 (cleanTitle nameText) @ js ''...''\<rparr>)
             else s\<lparr>loading := True, error := Some Nao_li_a_carta\<rparr>)
            \<lparr>loading := False, debugText := []\<rparr>)"
proof (intro conjI allI impI)
  show "infoMatch t = None \<longleftrightarrow> (\<forall>pre g w d post. \<not> occurrence three_letters t pre g w d post)"
    by (rule infoMatch_None_iff)
  show "codes t = None \<longleftrightarrow> (\<forall>pre g w d post. \<not> occurrence three_or_more_alnum t pre g w d post)"
    by (rule codes_None_iff)
next
  fix g d assume m: "infoMatch t = Some (g, d)"
  from infoMatch_Some [OF m]
  show occ: "\<exists>pre w post. occurrence three_letters t pre g w d post
           \<and> (post = [] \<or> \<not> is_digit (hd post))
           \<and> (\<forall>pre' g' w' d' post'. occurrence three_letters t pre' g' w' d' post' \<longrightarrow>
                 length pre \<le> length pre')" .
  then have "list_all is_alpha g" by (auto simp: occurrence_def three_letters_def)
  then show "list_all (\<lambda>c. 0x41 \<le> c \<and> c \<le> 0x5A) (toUpperCase g)"
    by (rule toUpperCase_letters)
  show "toLowerCase (toUpperCase g) = toLowerCase g"
    by (rule toUpperCase_same_letters)
  show "captureAndScan sv nameText t s =
            (searchByInfo sv (toUpperCase g) d
               (s\<lparr>loading := True, error := None,
                  debugText := debug_line (cleanName nameText) (Some (toUpperCase g)) (Some d)\<rparr>))
              \<lparr>loading := False\<rparr>"
    by (rule captureAndScan_found [OF m])
next
  assume "infoMatch t = None"
  then show "captureAndScan sv nameText t s =
          (if 3 < length (cleanName nameText)
           then searchByName sv (cleanName nameText)
             (s\<lparr>loading := True, error := None,
                debugText := debug_line (cleanName nameText) None None\<rparr>)
           else s\<lparr>loading := True, error := Some Nao_identificada,
                debugText := debug_line (cleanName nameText) None None\<rparr>)
            \<lparr>loading := False\<rparr>"
    by (rule captureAndScan_not_found)
next
  fix g d assume c: "codes t = Some (g, d)"
  then show "\<exists>pre w post. occurrence three_or_more_alnum t pre g w d post
           \<and> (post = [] \<or> \<not> is_digit (hd post))
           \<and> (\<forall>pre' g' w' d' post'. occurrence three_or_more_alnum t pre' g' w' d' post' \<longrightarrow>
                 length pre < length pre' \<or> (length pre = length pre' \<and> length g' \<le> length g))"
    by (rule codes_Some)
  from c show "processPhoto sv nameText t s
            = (searchBySet_photo sv g d s)\<lparr>loading := False, debugText := []\<rparr>"
    by (rule processPhoto_found)
  from c show "captureAndScan_dual sv nameText t s
            = (searchByInfo_dual sv g d
                 (s\<lparr>loading := True, error := None,
                    debugText := js ''ID Encontrado: '' @ g @ js ''/'' @ d\<rparr>))
              \<lparr>loading := False, debugText := []\<rparr>"
    by (rule captureAndScan_dual_found)
next
  assume n: "codes t = None"
  then show "processPhoto sv nameText t s
          = (if 2 < length (cleanTitle nameText)
             then searchByName_photo sv (cleanTitle nameText) s
             else s\<lparr>error := Some Nao_li_o_nome\<rparr>)
            \<lparr>loading := False, debugText := []\<rparr>"
    by (rule processPhoto_not_found)
  from n show "captureAndScan_dual sv nameText t s
          = (if 3 < length (cleanTitle nameText)
             then searchByName_dual sv (cleanTitle nameText)
               (s\<lparr>loading := True, error := None,
                  debugText := js ''Buscando Nome: '' @ take 10 (cleanTitle nameText) @ js ''...''\<rparr>)
             else s\<lparr>loading := True, error := Some Nao_li_a_carta\<rparr>)
            \<lparr>loading := False, debugText := []\<rparr>"
    by (rule captureAndScan_dual_not_found)
qed

theorem collector_info_extraction_witness:
  "infoMatch (js ''MID 245'') = Some (js ''MID'', js ''245'')
   \<and> (\<exists>pre w post. occurrence three_letters (js ''MID 245'') pre (js ''MID'') w (js ''245'') post)
   \<and> captureAndScan online (js ''Bolt'') (js ''MID 245'') idle =
        (searchByInfo online (toUpperCase (js ''MID'')) (js ''245'')
           (idle\<lparr>loading := True, error := None,
              debugText := debug_line (cleanName (js ''Bolt'')) (Some (toUpperCase (js ''MID'')))
                 (Some (js ''245''))\<rparr>))
          \<lparr>loading := False\<rparr>
   \<and> infoMatch (js ''M21 045'') = None
   \<and> captureAndScan online (js ''Lightning Bol'') (js ''M21 045'') idle =
        (if 3 < length (cleanName (js ''Lightning Bol''))
         then searchByName online (cleanName (js ''Lightning Bol''))
           (idle\<lparr>loading := True, error := None,
              debugText := debug_line (cleanName (js ''Lightning Bol'')) None None\<rparr>)
         else idle\<lparr>loading := True, error := Some Nao_identificada,
              debugText := debug_line (cleanName (js ''Lightning Bol'')) None None\<rparr>)
          \<lparr>loading := False\<rparr>
   \<and> codes (js ''MID245'') = Some (js ''MID24'', js ''5'')
   \<and> (\<exists>pre w post. occurrence three_or_more_alnum (js ''MID245'') pre (js ''MID24'') w (js ''5'') post)
   \<and> processPhoto online (js ''Bolt'') (js ''MID245'') idle
        = (searchBySet_photo online (js ''MID24'') (js ''5'') idle)\<lparr>loading := False, debugText := []\<rparr>
   \<and> codes (js ''?'') = None
   \<and> processPhoto online (js ''Opt'') (js ''?'') idle
        = (if 2 < length (cleanTitle (js ''Opt''))
           then searchByName_photo online (cleanTitle (js ''Opt'')) idle
           else idle\<lparr>error := Some Nao_li_o_nome\<rparr>)
          \<lparr>loading := False, debugText := []\<rparr>
   \<and> captureAndScan_dual online (js ''Opt'') (js ''?'') idle
        = (if 3 < length (cleanTitle (js ''Opt''))
           then searchByName_dual online (cleanTitle (js ''Opt''))
             (idle\<lparr>loading := True, error := None,
                debugText := js ''Buscando Nome: '' @ take 10 (cleanTitle (js ''Opt'')) @ js ''...''\<rparr>)
           else idle\<lparr>loading := True, error := Some Nao_li_a_carta\<rparr>)
          \<lparr>loading := False, debugText := []\<rparr>"
proof -
  have a: "infoMatch (js ''MID 245'') = Some (js ''MID'', js ''245'')"
    by (simp add: infoMatch_def info_at_def digits_after_def js_def is_alpha_def is_space_def
        is_digit_def)
  have b: "infoMatch (js ''M21 045'') = None"
    by (simp add: infoMatch_def info_at_def digits_after_def js_def is_alpha_def is_space_def
        is_digit_def)
  have c: "codes (js ''MID245'') = Some (js ''MID24'', js ''5'')"
    by code_simp
  have d: "codes (js ''?'') = None"
    by code_simp
  note A = collector_info_extraction [of "js ''MID 245''" online "js ''Bolt''" idle,
      THEN conjunct2, THEN conjunct1, rule_format, OF a]
  note B = collector_info_extraction [of "js ''M21 045''" online "js ''Lightning Bol''" idle,
      THEN conjunct2, THEN conjunct2, THEN conjunct1, rule_format, OF b]
  note C = collector_info_extraction [of "js ''MID245''" online "js ''Bolt''" idle,
      THEN conjunct2, THEN conjunct2, THEN conjunct2, THEN conjunct2, THEN conjunct1,
      rule_format, OF c]
  note D = collector_info_extraction [of "js ''?''" online "js ''Opt''" idle,
      THEN conjunct2, THEN conjunct2, THEN conjunct2, THEN conjunct2, THEN conjunct2,
      rule_format, OF d]
  from A have a1: "\<exists>pre w post. occurrence three_letters (js ''MID 245'') pre (js ''MID'') w (js ''245'') post"
    by blast
  from C have c1: "\<exists>pre w post. occurrence three_or_more_alnum (js ''MID245'') pre (js ''MID24'') w (js ''5'') post"
    by blast
  from a a1 A [THEN conjunct2, THEN conjunct2, THEN conjunct2] b B c c1 C [THEN conjunct2, THEN conjunct1]
    d D [THEN conjunct1] D [THEN conjunct2]
  show ?thesis
    by (intro conjI)
qed

theorem collector_info_counterexample:
  "occurrence three_or_more_alnum (js ''M21 045'') [] (js ''M21'') (js '' '') (js ''045'') []
   \<and> infoMatch (js ''M21 045'') = None
   \<and> codes (js ''mid 245'') = Some (js ''mid'', js ''245'')
   \<and> js ''mid'' \<noteq> toUpperCase (js ''mid'')"
  by code_simp

end
